theory Spec2Isabelle
  imports Complex_Main "HOL-Library.AList" "HOL-Library.List_Lexorder"
begin

section \<open>Python values\<close>

text \<open>
  The module \<^verbatim>\<open>src/src/cleaning.py\<close> works on rows that are Python dictionaries from
  column names to scalars. A Python \<^verbatim>\<open>str\<close> is a sequence of Unicode code points, so
  text is a list of code points here (the em-dash of \<^verbatim>\<open>NA_TOKENS\<close> is the code point
  8212 and does not fit an 8-bit character). A scalar is \<^verbatim>\<open>None\<close>, a \<^verbatim>\<open>str\<close>, an
  unbounded \<^verbatim>\<open>int\<close> or a \<^verbatim>\<open>float\<close>; \<^verbatim>\<open>bool\<close> and containers are outside the
  documented input domain and are not modelled.

  A \<^verbatim>\<open>float\<close> is an IEEE 754 binary64 number. A finite one is given by its exact
  rational value; negative zero, the two infinities and NaN are separate constructors.
  Every float the code creates comes out of \<open>round_double\<close> below, so it is a
  representable value.
\<close>

type_synonym pystr = "nat list"

datatype pyfloat = Finite rat | NegZero | PosInf | NegInf | NaN

datatype pyval = PyNone | PyStr pystr | PyInt int | PyFloat pyfloat

text \<open>An ASCII literal of the source, as code points.\<close>

definition ascii :: "string \<Rightarrow> pystr" where
  "ascii s = map of_char s"

text \<open>
  The exceptions the module can let escape, and what \<^verbatim>\<open>print\<close> has written: the lines
  printed, in order.
\<close>

datatype error = OverflowError | ValueError

type_synonym console = "pystr list"

section \<open>Text primitives\<close>

text \<open>
  \<^verbatim>\<open>str.strip()\<close> without argument removes the characters for which
  \<^verbatim>\<open>Py_UNICODE_ISSPACE\<close> holds, from both ends: the ASCII controls 9 to 13 and 28 to 31,
  the space, and the Unicode spaces and separators listed below.
\<close>

definition isspace :: "nat \<Rightarrow> bool" where
  "isspace c \<longleftrightarrow>
     (9 \<le> c \<and> c \<le> 13) \<or> (28 \<le> c \<and> c \<le> 32) \<or> c = 133 \<or> c = 160 \<or> c = 5760 \<or>
     (8192 \<le> c \<and> c \<le> 8202) \<or> c = 8232 \<or> c = 8233 \<or> c = 8239 \<or> c = 8287 \<or> c = 12288"

definition strip :: "pystr \<Rightarrow> pystr" where
  "strip s = rev (dropWhile isspace (rev (dropWhile isspace s)))"

text \<open>
  The decimal digits of Unicode 15.0 (the character database of CPython 3.12, the version
  \<^verbatim>\<open>src/config.py\<close> asks for) come in runs of ten; \<open>decimal_zeros\<close> lists the zero of
  each run. \<open>todecimal\<close> is \<^verbatim>\<open>Py_UNICODE_TODECIMAL\<close>, and \<open>isdecimal\<close> is what
  \<^verbatim>\<open>\d\<close> matches in a \<^verbatim>\<open>str\<close> pattern of \<^verbatim>\<open>re\<close>.
\<close>

definition decimal_zeros :: "nat list" where
  "decimal_zeros =
     [48, 1632, 1776, 1984, 2406, 2534, 2662, 2790, 2918, 3046, 3174, 3302, 3430, 3558, 3664,
      3792, 3872, 4160, 4240, 6112, 6160, 6470, 6608, 6784, 6800, 6992, 7088, 7232, 7248,
      42528, 43216, 43264, 43472, 43504, 43600, 44016, 65296, 66720, 68912, 69734, 69872,
      69942, 70096, 70384, 70736, 70864, 71248, 71360, 71472, 71904, 72016, 72784, 73040,
      73120, 73552, 92768, 92864, 93008, 120782, 120792, 120802, 120812, 120822, 123200,
      123632, 124144, 125264, 130032]"

definition todecimal :: "nat \<Rightarrow> nat option" where
  "todecimal c = map_option (\<lambda>z. c - z) (find (\<lambda>z. z \<le> c \<and> c < z + 10) decimal_zeros)"

definition isdecimal :: "nat \<Rightarrow> bool" where
  "isdecimal c \<longleftrightarrow> todecimal c \<noteq> None"

section \<open>Missing values\<close>

text \<open>
  \<^verbatim>\<open>NA_TOKENS = {'NA','N/A','n/a','NULL','null','None','.','-','(U+2014)',''}\<close>, a class
  attribute; the ninth token is the em-dash.
\<close>

definition NA_TOKENS :: "pystr set" where
  "NA_TOKENS = set [ascii ''NA'', ascii ''N/A'', ascii ''n/a'', ascii ''NULL'', ascii ''null'',
     ascii ''None'', ascii ''.'', ascii ''-'', [8212], []]"

fun is_missing :: "pyval \<Rightarrow> bool" where
  "is_missing PyNone = True"
| "is_missing (PyStr s) = (strip s \<in> NA_TOKENS \<or> strip s = [])"
| "is_missing _ = False"

section \<open>Floating point\<close>

subsection \<open>Rounding to binary64\<close>

text \<open>
  \<open>round_double neg n d\<close> is the binary64 value nearest to the rational \<open>n / d\<close>
  (\<open>0 \<le> n\<close>, \<open>0 < d\<close>) with the sign \<open>neg\<close>, ties to even: 53 bits of mantissa,
  least exponent \<open>- 1074\<close>, and an infinity from \<open>2 ^ 1024\<close> on. \<open>bit_length\<close> is
  \<^verbatim>\<open>int.bit_length\<close>, and \<open>binary_exponent n d\<close> the integer part of the binary
  logarithm of \<open>n / d\<close>.
\<close>

function bit_length :: "int \<Rightarrow> int" where
  "bit_length n = (if n \<le> 0 then 0 else 1 + bit_length (n div 2))"
  by pat_completeness auto
termination
  by (relation "measure nat") auto

definition pow2 :: "int \<Rightarrow> rat" where
  "pow2 e = (if 0 \<le> e then 2 ^ nat e else 1 / 2 ^ nat (- e))"

definition pow10 :: "int \<Rightarrow> rat" where
  "pow10 e = (if 0 \<le> e then 10 ^ nat e else 1 / 10 ^ nat (- e))"

definition round_half_even :: "int \<Rightarrow> int \<Rightarrow> int" where
  "round_half_even a b =
     (let f = a div b; r = a mod b
      in if 2 * r < b then f else if b < 2 * r then f + 1 else if even f then f else f + 1)"

definition binary_exponent :: "int \<Rightarrow> int \<Rightarrow> int" where
  "binary_exponent n d =
     (let k = bit_length n - bit_length d
      in if (if 0 \<le> k then d * 2 ^ nat k \<le> n else d \<le> n * 2 ^ nat (- k)) then k else k - 1)"

definition round_double :: "bool \<Rightarrow> int \<Rightarrow> int \<Rightarrow> pyfloat" where
  "round_double neg n d =
     (if n = 0 then (if neg then NegZero else Finite 0)
      else
        let e = max (binary_exponent n d - 52) (- 1074);
            m = (if 0 \<le> e then round_half_even n (d * 2 ^ nat e)
                 else round_half_even (n * 2 ^ nat (- e)) d);
            r = of_int m * pow2 e
        in if 2 ^ 1024 \<le> r then (if neg then NegInf else PosInf)
           else if m = 0 then (if neg then NegZero else Finite 0)
           else Finite (if neg then - r else r))"

text \<open>
  \<^verbatim>\<open>float(i)\<close> of an \<^verbatim>\<open>int\<close> rounds the same way and raises \<^verbatim>\<open>OverflowError\<close>
  where the rounded value is not finite.
\<close>

definition float_of_int :: "int \<Rightarrow> error + pyfloat" where
  "float_of_int i =
     (case round_double (i < 0) \<bar>i\<bar> 1 of
        PosInf \<Rightarrow> Inl OverflowError
      | NegInf \<Rightarrow> Inl OverflowError
      | x \<Rightarrow> Inr x)"

subsection \<open>\<^verbatim>\<open>float(s)\<close> of a text\<close>

text \<open>
  \<^verbatim>\<open>float\<close> of a \<^verbatim>\<open>str\<close> first maps a text that is not pure ASCII to ASCII
  (\<^verbatim>\<open>_PyUnicode_TransformDecimalAndSpaceToASCII\<close>: decimal digits to \<^verbatim>\<open>0\<close>..\<^verbatim>\<open>9\<close>,
  whitespace to a space, and it stops with a \<^verbatim>\<open>?\<close> at any other character above 126);
  then checks and removes underscores (each must stand between two digits); then strips
  the C whitespace; and reads an optional sign followed by \<^verbatim>\<open>inf\<close>, \<^verbatim>\<open>infinity\<close>,
  \<^verbatim>\<open>nan\<close> (any case) or a decimal literal with an optional exponent, which must be the
  whole text. Everything else is a \<^verbatim>\<open>ValueError\<close>.
\<close>

definition isdigit_c :: "nat \<Rightarrow> bool" where
  "isdigit_c c \<longleftrightarrow> 48 \<le> c \<and> c \<le> 57"

definition isspace_c :: "nat \<Rightarrow> bool" where
  "isspace_c c \<longleftrightarrow> c = 32 \<or> (9 \<le> c \<and> c \<le> 13)"

fun transform_decimal_and_space :: "pystr \<Rightarrow> pystr" where
  "transform_decimal_and_space [] = []"
| "transform_decimal_and_space (c # s) =
     (if c < 127 then c # transform_decimal_and_space s
      else if isspace c then 32 # transform_decimal_and_space s
      else case todecimal c of
             None \<Rightarrow> [63]
           | Some d \<Rightarrow> (48 + d) # transform_decimal_and_space s)"

definition to_ascii :: "pystr \<Rightarrow> pystr" where
  "to_ascii s = (if list_all (\<lambda>c. c < 128) s then s else transform_decimal_and_space s)"

fun underscores_ok :: "nat \<Rightarrow> pystr \<Rightarrow> bool" where
  "underscores_ok prev [] = (prev \<noteq> 95)"
| "underscores_ok prev (c # s) =
     (if c = 95 then isdigit_c prev \<and> underscores_ok c s
      else if prev = 95 then isdigit_c c \<and> underscores_ok c s
      else underscores_ok c s)"

definition lower :: "pystr \<Rightarrow> pystr" where
  "lower s = map (\<lambda>c. if 65 \<le> c \<and> c \<le> 90 then c + 32 else c) s"

fun opt_sign :: "pystr \<Rightarrow> bool \<times> pystr" where
  "opt_sign [] = (False, [])"
| "opt_sign (c # s) = (if c = 45 then (True, s) else if c = 43 then (False, s) else (False, c # s))"

definition digits_value :: "pystr \<Rightarrow> int" where
  "digits_value ds = foldl (\<lambda>a c. 10 * a + (int c - 48)) 0 ds"

definition parse_exponent :: "pystr \<Rightarrow> int option" where
  "parse_exponent s =
     (case s of
        [] \<Rightarrow> Some 0
      | c # r \<Rightarrow>
          if c = 101 \<or> c = 69 then
            (let (neg, ds) = opt_sign r
             in if ds \<noteq> [] \<and> list_all isdigit_c ds
                then Some (if neg then - digits_value ds else digits_value ds)
                else None)
          else None)"

definition parse_decimal :: "pystr \<Rightarrow> (int \<times> int) option" where
  "parse_decimal s =
     (let ip = takeWhile isdigit_c s;
          r1 = dropWhile isdigit_c s;
          (fp, r2) = (case r1 of
                        [] \<Rightarrow> ([], r1)
                      | c # r \<Rightarrow> if c = 46 then (takeWhile isdigit_c r, dropWhile isdigit_c r)
                                 else ([], r1))
      in if ip = [] \<and> fp = [] then None
         else case parse_exponent r2 of
                None \<Rightarrow> None
              | Some e \<Rightarrow>
                  (let x = e - int (length fp)
                   in if 0 \<le> x then Some (digits_value (ip @ fp) * 10 ^ nat x, 1)
                      else Some (digits_value (ip @ fp), 10 ^ nat (- x))))"

definition float_of_str :: "pystr \<Rightarrow> error + pyfloat" where
  "float_of_str s =
     (let a = to_ascii s
      in if 95 \<in> set a \<and> \<not> underscores_ok 0 a then Inl ValueError
         else
           let t = rev (dropWhile isspace_c (rev (dropWhile isspace_c (filter (\<lambda>c. c \<noteq> 95) a))))
           in if t = [] then Inl ValueError
              else
                let (neg, r) = opt_sign t
                in if lower r = ascii ''inf'' \<or> lower r = ascii ''infinity''
                   then Inr (if neg then NegInf else PosInf)
                   else if lower r = ascii ''nan'' then Inr NaN
                   else case parse_decimal r of
                          None \<Rightarrow> Inl ValueError
                        | Some (n, d) \<Rightarrow> Inr (round_double neg n d))"

subsection \<open>\<^verbatim>\<open>repr\<close> of a float and \<^verbatim>\<open>str\<close> of a value\<close>

text \<open>
  \<^verbatim>\<open>repr\<close> of a finite float prints the shortest decimal digit string that reads back
  as the same float, the nearest to it where two of a length do (\<open>candidate q n\<close> looks at
  the two \<open>n\<close>-digit decimals around \<open>q\<close>; seventeen digits always suffice). With
  \<open>decpt\<close> the position of the decimal point, it uses the exponent form if
  \<open>decpt \<le> - 4\<close> or \<open>16 < decpt\<close>, and the positional form ending in \<^verbatim>\<open>.0\<close> for an
  integer otherwise.

  \<^verbatim>\<open>str\<close> of an \<^verbatim>\<open>int\<close> is its decimal numeral, and a \<^verbatim>\<open>ValueError\<close> for a numeral of
  more than 4300 digits (the sign not counted): the interpreter's limit on the conversion
  of an \<^verbatim>\<open>int\<close> to text, at its default value. No other \<^verbatim>\<open>str\<close> raises.
\<close>

function digits_of :: "int \<Rightarrow> pystr" where
  "digits_of n = (if n < 10 then [nat (48 + n)] else digits_of (n div 10) @ [nat (48 + n mod 10)])"
  by pat_completeness auto
termination
  by (relation "measure nat") auto

definition int_repr :: "int \<Rightarrow> error + pystr" where
  "int_repr i =
     (if 4300 < length (digits_of \<bar>i\<bar>) then Inl ValueError
      else Inr (if i < 0 then 45 # digits_of (- i) else digits_of i))"

function exponent_up :: "rat \<Rightarrow> int \<Rightarrow> int" where
  "exponent_up q d = (if d < 400 \<and> pow10 (d + 1) \<le> q then exponent_up q (d + 1) else d)"
  by pat_completeness auto
termination
  by (relation "measure (\<lambda>(q, d). nat (400 - d))") auto

function exponent_down :: "rat \<Rightarrow> int \<Rightarrow> int" where
  "exponent_down q d = (if - 400 < d \<and> q < pow10 d then exponent_down q (d - 1) else d)"
  by pat_completeness auto
termination
  by (relation "measure (\<lambda>(q, d). nat (d + 400))") auto

definition decimal_exponent :: "rat \<Rightarrow> int" where
  "decimal_exponent q = (if 1 \<le> q then exponent_up q 0 else exponent_down q 0)"

definition reads_back :: "int \<Rightarrow> int \<Rightarrow> rat \<Rightarrow> bool" where
  "reads_back c k q \<longleftrightarrow>
     (if 0 \<le> k then round_double False (c * 10 ^ nat k) 1
      else round_double False c (10 ^ nat (- k))) = Finite q"

definition candidate :: "rat \<Rightarrow> int \<Rightarrow> (int \<times> int) option" where
  "candidate q n =
     (let k = decimal_exponent q - n + 1;
          s = q / pow10 k;
          lo = \<lfloor>s\<rfloor>;
          hi = lo + 1
      in if reads_back lo k q \<and> (if reads_back hi k q then s - of_int lo \<le> of_int hi - s else True)
         then Some (lo, k)
         else if reads_back hi k q then Some (hi, k)
         else if 17 \<le> n then Some (lo, k)
         else None)"

function shortest_digits :: "rat \<Rightarrow> int \<Rightarrow> int \<times> int" where
  "shortest_digits q n =
     (case candidate q n of
        Some ck \<Rightarrow> ck
      | None \<Rightarrow> if 17 \<le> n then (0, 0) else shortest_digits q (n + 1))"
  by pat_completeness auto
termination
  by (relation "measure (\<lambda>(q, n). nat (17 - n))") auto

definition format_repr :: "pystr \<Rightarrow> int \<Rightarrow> pystr" where
  "format_repr ds decpt =
     (if decpt \<le> - 4 \<or> 16 < decpt then
        (let e = decpt - 1;
             es = digits_of \<bar>e\<bar>
         in [hd ds] @ (if tl ds = [] then [] else 46 # tl ds) @ [101]
            @ [if e < 0 then 45 else 43] @ (if length es < 2 then 48 # es else es))
      else if decpt \<le> 0 then ascii ''0.'' @ replicate (nat (- decpt)) 48 @ ds
      else if int (length ds) \<le> decpt
        then ds @ replicate (nat decpt - length ds) 48 @ ascii ''.0''
      else take (nat decpt) ds @ [46] @ drop (nat decpt) ds)"

definition positive_repr :: "rat \<Rightarrow> pystr" where
  "positive_repr q =
     (let (c, k) = shortest_digits q 1;
          all_digits = digits_of c;
          ds = rev (dropWhile (\<lambda>d. d = 48) (rev all_digits))
      in format_repr ds (int (length all_digits) + k))"

fun float_repr :: "pyfloat \<Rightarrow> pystr" where
  "float_repr NaN = ascii ''nan''"
| "float_repr PosInf = ascii ''inf''"
| "float_repr NegInf = ascii ''-inf''"
| "float_repr NegZero = ascii ''-0.0''"
| "float_repr (Finite q) =
     (if q = 0 then ascii ''0.0''
      else if q < 0 then 45 # positive_repr (- q)
      else positive_repr q)"

fun str_of :: "pyval \<Rightarrow> error + pystr" where
  "str_of PyNone = Inr (ascii ''None'')"
| "str_of (PyStr s) = Inr s"
| "str_of (PyInt i) = int_repr i"
| "str_of (PyFloat x) = Inr (float_repr x)"

section \<open>Cleaning one value\<close>

text \<open>
  \<^verbatim>\<open>re.search(r"([+-]?\d+(?:\.\d+)?)", s)\<close>: \<open>match_number\<close> is the match of the
  pattern at the start of a text, with the greedy choices of the backtracking matcher (the
  sign if there is one, the whole run of digits, the fraction if a digit follows the
  point); \<open>search_number\<close> tries the start positions from left to right.
\<close>

definition match_number :: "pystr \<Rightarrow> pystr option" where
  "match_number s =
     (let sign = (case s of [] \<Rightarrow> [] | c # _ \<Rightarrow> if c = 43 \<or> c = 45 then [c] else []);
          r = drop (length sign) s;
          ds = takeWhile isdecimal r;
          r1 = dropWhile isdecimal r
      in if ds = [] then None
         else case r1 of
                [] \<Rightarrow> Some (sign @ ds)
              | c # r2 \<Rightarrow>
                  if c = 46 \<and> takeWhile isdecimal r2 \<noteq> []
                  then Some (sign @ ds @ [46] @ takeWhile isdecimal r2)
                  else Some (sign @ ds))"

fun search_number :: "pystr \<Rightarrow> pystr option" where
  "search_number [] = None"
| "search_number (c # s) =
     (case match_number (c # s) of
        Some m \<Rightarrow> Some m
      | None \<Rightarrow> search_number s)"

text \<open>
  The cleaners return what the Python function returns or raises, paired with the lines
  it printed. \<open>clean_distance\<close> has no \<^verbatim>\<open>print\<close> and no \<^verbatim>\<open>try\<close>: an exception of
  \<^verbatim>\<open>str(val)\<close> escapes, and so would a \<^verbatim>\<open>ValueError\<close> of \<^verbatim>\<open>float(match.group(1))\<close>;
  \<open>clean_distance_returns\<close> below shows that the second is never raised.
\<close>

definition clean_distance :: "pyval \<Rightarrow> (error + pyfloat option) \<times> console" where
  "clean_distance val =
     (if is_missing val then (Inr None, [])
      else case str_of val of
             Inl e \<Rightarrow> (Inl e, [])
           | Inr s \<Rightarrow>
               (case search_number s of
                  None \<Rightarrow> (Inr None, [])
                | Some g \<Rightarrow>
                    (case float_of_str g of
                       Inl e \<Rightarrow> (Inl e, [])
                     | Inr x \<Rightarrow> (Inr (Some x), []))))"

text \<open>
  \<open>clean_currency\<close> returns a number at once (no range check on this path, and an
  \<^verbatim>\<open>OverflowError\<close> of \<^verbatim>\<open>float(val)\<close> escapes). \<open>parse_currency\<close> is the rest of the
  function: \<^verbatim>\<open>str(val)\<close>, which is outside the \<^verbatim>\<open>try\<close> block; the text without \<^verbatim>\<open>$\<close>
  and \<^verbatim>\<open>,\<close>, stripped (\<open>currency_text\<close>); the \<^verbatim>\<open>try\<close> block with its two range
  warnings (\<^verbatim>\<open>value < 0\<close>, \<^verbatim>\<open>value > 1e9\<close>); and the handler of \<^verbatim>\<open>ValueError\<close>.
\<close>

fun float_lt_zero :: "pyfloat \<Rightarrow> bool" where
  "float_lt_zero (Finite q) = (q < 0)"
| "float_lt_zero NegInf = True"
| "float_lt_zero _ = False"

fun float_gt_1e9 :: "pyfloat \<Rightarrow> bool" where
  "float_gt_1e9 (Finite q) = (1000000000 < q)"
| "float_gt_1e9 PosInf = True"
| "float_gt_1e9 _ = False"

definition currency_text :: "pystr \<Rightarrow> pystr" where
  "currency_text text = strip (filter (\<lambda>c. c \<noteq> 36 \<and> c \<noteq> 44) text)"

definition parse_currency :: "pyval \<Rightarrow> (error + pyfloat option) \<times> console" where
  "parse_currency val =
     (case str_of val of
        Inl e \<Rightarrow> (Inl e, [])
      | Inr text \<Rightarrow>
          (let s = currency_text text
           in if s = [] then (Inr None, [])
              else case float_of_str s of
                     Inr v \<Rightarrow>
                       if float_lt_zero v
                         then (Inr (Some v),
                               [ascii ''Warning: Negative currency value: '' @ float_repr v])
                       else if float_gt_1e9 v
                         then (Inr (Some v),
                               [ascii ''Warning: Extremely large currency value: '' @ float_repr v])
                       else (Inr (Some v), [])
                   | Inl ValueError \<Rightarrow>
                       (Inr None, [ascii ''Warning: Cannot parse currency value: '' @ text])
                   | Inl e \<Rightarrow> (Inl e, [])))"

definition clean_currency :: "pyval \<Rightarrow> (error + pyfloat option) \<times> console" where
  "clean_currency val =
     (if is_missing val then (Inr None, [])
      else case val of
             PyInt i \<Rightarrow> (case float_of_int i of Inl e \<Rightarrow> (Inl e, []) | Inr x \<Rightarrow> (Inr (Some x), []))
           | PyFloat x \<Rightarrow> (Inr (Some x), [])
           | _ \<Rightarrow> parse_currency val)"

definition tidy_string :: "pyval \<Rightarrow> error + pystr option" where
  "tidy_string val =
     (if is_missing val then Inr None
      else case str_of val of
             Inl e \<Rightarrow> Inl e
           | Inr text \<Rightarrow> Inr (Some (strip text)))"

section \<open>Rows\<close>

text \<open>
  A row is a \<^verbatim>\<open>dict\<close>: an association list in insertion order that holds each key once.
  \<^verbatim>\<open>d[k] = v\<close> is \<open>AList.update\<close> (in place for a key that is there, at the end for a
  new one), \<^verbatim>\<open>d.pop(k)\<close> is \<open>AList.delete\<close>, \<^verbatim>\<open>d.get(k)\<close> is \<open>dict_get\<close>.
\<close>

type_synonym row = "(pystr \<times> pyval) list"

definition keys :: "('k \<times> 'v) list \<Rightarrow> 'k list" where
  "keys d = map fst d"

definition dict_get :: "row \<Rightarrow> pystr \<Rightarrow> pyval" where
  "dict_get d k = (case map_of d k of None \<Rightarrow> PyNone | Some v \<Rightarrow> v)"

fun of_float_option :: "pyfloat option \<Rightarrow> pyval" where
  "of_float_option None = PyNone"
| "of_float_option (Some x) = PyFloat x"

fun of_str_option :: "pystr option \<Rightarrow> pyval" where
  "of_str_option None = PyNone"
| "of_str_option (Some s) = PyStr s"

subsection \<open>\<^verbatim>\<open>clean_row\<close> and \<^verbatim>\<open>clean_data\<close>\<close>

text \<open>
  \<open>rename_column\<close> is one round of the first loop,
  \<^verbatim>\<open>if old in out: out[new] = out.pop(old)\<close>.
\<close>

definition rename_map :: "(pystr \<times> pystr) list" where
  "rename_map =
     [(ascii ''Distance'', ascii ''distance''),
      (ascii ''Purse'', ascii ''purse''),
      (ascii ''Field_size'', ascii ''field_size''),
      (ascii ''Earnings'', ascii ''earnings''),
      (ascii ''Final Odds'', ascii ''final_odds'')]"

definition rename_column :: "pystr \<times> pystr \<Rightarrow> row \<Rightarrow> row" where
  "rename_column on out =
     (case map_of out (fst on) of
        None \<Rightarrow> out
      | Some v \<Rightarrow> AList.update (snd on) v (AList.delete (fst on) out))"

definition rename_columns :: "row \<Rightarrow> row" where
  "rename_columns out = fold rename_column rename_map out"

text \<open>
  \<open>clean_column\<close> is \<^verbatim>\<open>if col in out: out[col] = cleaner(out[col])\<close>. The state of the
  three such statements is the exception raised so far (after which nothing runs), the
  dictionary \<^verbatim>\<open>out\<close> and the lines printed.
\<close>

type_synonym cleaning = "(error option \<times> row) \<times> console"

definition clean_column ::
  "(pyval \<Rightarrow> (error + pyfloat option) \<times> console) \<Rightarrow> pystr \<Rightarrow> cleaning \<Rightarrow> cleaning" where
  "clean_column cleaner col state =
     (case state of
        ((Some e, out), printed) \<Rightarrow> state
      | ((None, out), printed) \<Rightarrow>
          (case map_of out col of
             None \<Rightarrow> state
           | Some v \<Rightarrow>
               (case cleaner v of
                  (Inl e, w) \<Rightarrow> ((Some e, out), printed @ w)
                | (Inr x, w) \<Rightarrow>
                    ((None, AList.update col (of_float_option x) out), printed @ w))))"

definition clean_columns :: "row \<Rightarrow> cleaning" where
  "clean_columns out =
     fold (clean_column clean_currency) [ascii ''purse'', ascii ''earnings'']
       (clean_column clean_distance (ascii ''distance'') ((None, out), []))"

text \<open>
  The last loop, \<^verbatim>\<open>for k, v in out.items(): if isinstance(v, str): out[k] = tidy_string(v)\<close>,
  assigns to keys that are there, so the iteration sees every item of \<^verbatim>\<open>out\<close> as it was
  before the loop. Its state is the exception raised so far and the dictionary; it prints
  nothing.
\<close>

definition tidy_item :: "pystr \<times> pyval \<Rightarrow> error option \<times> row \<Rightarrow> error option \<times> row" where
  "tidy_item kv state =
     (case state of
        (Some e, out) \<Rightarrow> state
      | (None, out) \<Rightarrow>
          (case snd kv of
             PyStr s \<Rightarrow>
               (case tidy_string (PyStr s) of
                  Inl e \<Rightarrow> (Some e, out)
                | Inr t \<Rightarrow> (None, AList.update (fst kv) (of_str_option t) out))
           | _ \<Rightarrow> state))"

definition tidy_columns :: "row \<Rightarrow> error option \<times> row" where
  "tidy_columns out = fold tidy_item out (None, out)"

definition clean_row :: "row \<Rightarrow> (error + row) \<times> console" where
  "clean_row row =
     (case clean_columns (rename_columns row) of
        ((Some e, out), printed) \<Rightarrow> (Inl e, printed)
      | ((None, out), printed) \<Rightarrow>
          (case tidy_columns out of
             (Some e, tidied) \<Rightarrow> (Inl e, printed)
           | (None, tidied) \<Rightarrow> (Inr tidied, printed)))"

text \<open>The list comprehension of \<^verbatim>\<open>clean_data\<close> stops at the first row that raises.\<close>

fun clean_data :: "row list \<Rightarrow> (error + row list) \<times> console" where
  "clean_data [] = (Inr [], [])"
| "clean_data (row # rows) =
     (case clean_row row of
        (Inl e, w) \<Rightarrow> (Inl e, w)
      | (Inr r, w) \<Rightarrow>
          (case clean_data rows of
             (Inl e, w') \<Rightarrow> (Inl e, w @ w')
           | (Inr rs, w') \<Rightarrow> (Inr (r # rs), w @ w')))"

subsection \<open>The same two functions on a store\<close>

text \<open>
  Dictionaries are objects: a store is the list of the dictionaries allocated so far, and
  a reference is an index into it. \<open>clean_row_at\<close> is \<^verbatim>\<open>clean_row\<close> statement by
  statement: \<^verbatim>\<open>out = dict(row)\<close> allocates a copy, and every later statement reads and
  writes the object \<^verbatim>\<open>out\<close>. After an exception the abandoned copy stays in the store.
  \<open>clean_data_at\<close> maps a list of references to the list of the references returned.
\<close>

type_synonym store = "row list"

definition modify :: "nat \<Rightarrow> (row \<Rightarrow> row) \<Rightarrow> store \<Rightarrow> store" where
  "modify ref f h = h[ref := f (h ! ref)]"

definition clean_row_at :: "nat \<Rightarrow> store \<Rightarrow> ((error + nat) \<times> console) \<times> store" where
  "clean_row_at row h =
     (let out = length h;
          h1 = h @ [h ! row];
          h2 = modify out rename_columns h1
      in case clean_columns (h2 ! out) of
           ((Some e, d), printed) \<Rightarrow> ((Inl e, printed), h2[out := d])
         | ((None, d), printed) \<Rightarrow>
             (case tidy_columns d of
                (Some e, tidied) \<Rightarrow> ((Inl e, printed), h2[out := tidied])
              | (None, tidied) \<Rightarrow> ((Inr out, printed), h2[out := tidied])))"

fun clean_data_at :: "nat list \<Rightarrow> store \<Rightarrow> ((error + nat list) \<times> console) \<times> store" where
  "clean_data_at [] h = ((Inr [], []), h)"
| "clean_data_at (row # rows) h =
     (case clean_row_at row h of
        ((Inl e, w), h') \<Rightarrow> ((Inl e, w), h')
      | ((Inr out, w), h') \<Rightarrow>
          (case clean_data_at rows h' of
             ((Inl e, w'), h'') \<Rightarrow> ((Inl e, w @ w'), h'')
           | ((Inr outs, w'), h'') \<Rightarrow> ((Inr (out # outs), w @ w'), h'')))"

section \<open>Diagnostics\<close>

subsection \<open>\<^verbatim>\<open>find_missing\<close>\<close>

text \<open>
  \<open>count_row\<close> is the inner loop for one row; \<^verbatim>\<open>missing[col] += 1\<close> finds its key,
  since \<^verbatim>\<open>missing\<close> was built from \<^verbatim>\<open>cols\<close>.
\<close>

definition count_row :: "pystr list \<Rightarrow> row \<Rightarrow> (pystr \<times> int) list \<Rightarrow> (pystr \<times> int) list" where
  "count_row cols row missing =
     fold (\<lambda>col m. if is_missing (dict_get row col) then AList.map_entry col (\<lambda>n. n + 1) m else m)
       cols missing"

definition find_missing :: "row list \<Rightarrow> (pystr \<times> int) list" where
  "find_missing rows =
     (case rows of
        [] \<Rightarrow> []
      | r0 # _ \<Rightarrow>
          let cols = keys r0;
              missing = map (\<lambda>col. (col, 0)) cols
          in fold (count_row cols) rows missing)"

subsection \<open>\<^verbatim>\<open>find_duplicates\<close>\<close>

text \<open>
  \<open>py_eq\<close> is \<^verbatim>\<open>==\<close> on scalars: \<^verbatim>\<open>None\<close> equals itself, texts are compared as
  texts, and numbers by their exact values, so \<^verbatim>\<open>1 == 1.0\<close> and \<^verbatim>\<open>0.0 == -0.0\<close> hold
  and NaN equals nothing. (Containers compare an element with itself by identity first;
  floats have no identity here, so a NaN object shared by two rows is not told apart from
  two NaN objects.)
\<close>

datatype exact = Exact rat | PlusInfinity | MinusInfinity

fun number :: "pyval \<Rightarrow> exact option" where
  "number (PyInt i) = Some (Exact (of_int i))"
| "number (PyFloat (Finite q)) = Some (Exact q)"
| "number (PyFloat NegZero) = Some (Exact 0)"
| "number (PyFloat PosInf) = Some PlusInfinity"
| "number (PyFloat NegInf) = Some MinusInfinity"
| "number (PyFloat NaN) = None"
| "number PyNone = None"
| "number (PyStr s) = None"

fun py_eq :: "pyval \<Rightarrow> pyval \<Rightarrow> bool" where
  "py_eq PyNone PyNone = True"
| "py_eq (PyStr s) (PyStr t) = (s = t)"
| "py_eq a b = (case (number a, number b) of (Some x, Some y) \<Rightarrow> x = y | _ \<Rightarrow> False)"

text \<open>
  \<^verbatim>\<open>tuple(sorted(row.items()))\<close> sorts the items by key: the keys of a dictionary
  differ, so no comparison reaches a value. \<open>tuple_eq\<close> is \<^verbatim>\<open>==\<close> on such tuples, and
  membership in the set \<^verbatim>\<open>seen\<close> is equality with one of its elements (equal scalars have
  equal hashes).
\<close>

definition item_eq :: "pystr \<times> pyval \<Rightarrow> pystr \<times> pyval \<Rightarrow> bool" where
  "item_eq p q \<longleftrightarrow> fst p = fst q \<and> py_eq (snd p) (snd q)"

definition tuple_eq :: "row \<Rightarrow> row \<Rightarrow> bool" where
  "tuple_eq s t \<longleftrightarrow> list_all2 item_eq s t"

fun dup_loop :: "row list \<Rightarrow> row list \<Rightarrow> row list \<Rightarrow> row list" where
  "dup_loop [] seen dups = dups"
| "dup_loop (row # rows) seen dups =
     (let row_tuple = sort_key fst row
      in if list_ex (\<lambda>t. tuple_eq t row_tuple) seen
         then dup_loop rows seen (dups @ [row])
         else dup_loop rows (seen @ [row_tuple]) dups)"

definition find_duplicates :: "row list \<Rightarrow> row list" where
  "find_duplicates rows = dup_loop rows [] []"

section \<open>Notions of the specification\<close>

text \<open>
  A text that the pattern \<^verbatim>\<open>[+-]?digits(.digits)?\<close> matches as a whole, and the first
  such substring of a text: none starts further left, and none that starts at the same
  place is longer.
\<close>

definition number_token :: "pystr \<Rightarrow> bool" where
  "number_token t \<longleftrightarrow>
     (\<exists>sign ds fs. t = sign @ ds @ fs \<and> (sign = [] \<or> sign = [43] \<or> sign = [45]) \<and>
        ds \<noteq> [] \<and> list_all isdecimal ds \<and>
        (fs = [] \<or> (\<exists>fd. fs = 46 # fd \<and> fd \<noteq> [] \<and> list_all isdecimal fd)))"

definition leftmost_token :: "pystr \<Rightarrow> pystr \<Rightarrow> bool" where
  "leftmost_token s m \<longleftrightarrow>
     (\<exists>pre post. s = pre @ m @ post \<and> number_token m \<and>
        (\<forall>pre' t post'. s = pre' @ t @ post' \<and> number_token t \<longrightarrow>
           length pre < length pre' \<or> (length pre = length pre' \<and> length t \<le> length m)))"

text \<open>
  Rows with an equal set of (key, value) pairs, the values compared with \<^verbatim>\<open>==\<close>; this is
  \<^verbatim>\<open>==\<close> on dictionaries. \<open>later_copies seen rows\<close> are the rows of \<open>rows\<close> that equal
  a row of \<open>seen\<close> or an earlier row of \<open>rows\<close>.
\<close>

definition same_items :: "row \<Rightarrow> row \<Rightarrow> bool" where
  "same_items a b \<longleftrightarrow>
     list_all (\<lambda>p. list_ex (\<lambda>q. item_eq p q) b) a \<and> list_all (\<lambda>q. list_ex (\<lambda>p. item_eq p q) a) b"

fun later_copies :: "row list \<Rightarrow> row list \<Rightarrow> row list" where
  "later_copies P [] = []"
| "later_copies P (r # rs) =
     (if list_ex (\<lambda>p. same_items p r) P then r # later_copies (P @ [r]) rs
      else later_copies (P @ [r]) rs)"

text \<open>The ASCII image of a number token, as \<open>float\<close> reads it.\<close>

definition ascii_token :: "pystr \<Rightarrow> bool" where
  "ascii_token a \<longleftrightarrow>
     (\<exists>sign ds fs. a = sign @ ds @ fs \<and> (sign = [] \<or> sign = [43] \<or> sign = [45]) \<and>
        ds \<noteq> [] \<and> list_all isdigit_c ds \<and>
        (fs = [] \<or> (\<exists>fd. fs = 46 # fd \<and> fd \<noteq> [] \<and> list_all isdigit_c fd)))"

definition ascii_digit :: "nat \<Rightarrow> nat" where
  "ascii_digit c = (if c < 127 then c else 48 + the (todecimal c))"

section \<open>Evaluation\<close>

text \<open>
  The recursive equations of the functions defined by \<^theory_text>\<open>function\<close> are taken out of
  the simplifier and replaced by conditional ones, which unfold a call only once its
  condition has been decided.
\<close>

declare bit_length.simps [simp del] digits_of.simps [simp del] shortest_digits.simps [simp del]
  exponent_up.simps [simp del] exponent_down.simps [simp del]

lemma bit_length_eval:
  "n \<le> 0 \<Longrightarrow> bit_length n = 0"
  "0 < n \<Longrightarrow> bit_length n = 1 + bit_length (n div 2)"
  by (simp_all add: bit_length.simps)

lemma digits_of_eval:
  "n < 10 \<Longrightarrow> digits_of n = [nat (48 + n)]"
  "10 \<le> n \<Longrightarrow> digits_of n = digits_of (n div 10) @ [nat (48 + n mod 10)]"
  by (simp_all add: digits_of.simps)

lemma exponent_up_eval:
  "d < 400 \<and> pow10 (d + 1) \<le> q \<Longrightarrow> exponent_up q d = exponent_up q (d + 1)"
  "\<not> (d < 400 \<and> pow10 (d + 1) \<le> q) \<Longrightarrow> exponent_up q d = d"
  by (simp_all add: exponent_up.simps)

lemma exponent_down_eval:
  "- 400 < d \<and> q < pow10 d \<Longrightarrow> exponent_down q d = exponent_down q (d - 1)"
  "\<not> (- 400 < d \<and> q < pow10 d) \<Longrightarrow> exponent_down q d = d"
  by (simp_all add: exponent_down.simps)

lemma shortest_digits_eval:
  "candidate q n = Some ck \<Longrightarrow> shortest_digits q n = ck"
  "candidate q n = None \<Longrightarrow> n < 17 \<Longrightarrow> shortest_digits q n = shortest_digits q (n + 1)"
  by (simp_all add: shortest_digits.simps)

lemma floor_rat_numeral [simp]:
  "\<lfloor>numeral a / numeral b :: rat\<rfloor> = numeral a div numeral b"
  using floor_divide_of_int_eq [of "numeral a" "numeral b", where ?'a = rat] by simp

lemmas text_eval = ascii_def strip_def isspace_def NA_TOKENS_def

lemmas float_eval = bit_length_eval digits_of_eval shortest_digits_eval exponent_up_eval
  exponent_down_eval pow2_def pow10_def round_half_even_def binary_exponent_def round_double_def
  float_of_int_def decimal_zeros_def todecimal_def isdecimal_def isdigit_c_def isspace_c_def
  to_ascii_def candidate_def lower_def digits_value_def parse_exponent_def parse_decimal_def
  float_of_str_def reads_back_def int_repr_def decimal_exponent_def format_repr_def
  positive_repr_def ascii_def

lemmas clean_eval = match_number_def clean_distance_def currency_text_def parse_currency_def
  clean_currency_def tidy_string_def

section \<open>Properties of the text primitives\<close>

lemma strip_no_space_ends:
  "strip s = [] \<or> (\<not> isspace (hd (strip s)) \<and> \<not> isspace (last (strip s)))"
proof -
  let ?t = "dropWhile isspace (rev (dropWhile isspace s))"
  have ends: "?t \<noteq> [] \<Longrightarrow> \<not> isspace (hd ?t) \<and> \<not> isspace (last ?t)"
  proof -
    assume ne: "?t \<noteq> []"
    have h: "\<not> isspace (hd ?t)" using ne by (rule hd_dropWhile)
    have "rev (dropWhile isspace s) \<noteq> []" using ne by (metis dropWhile.simps(1))
    then have ne2: "dropWhile isspace s \<noteq> []" by simp
    have "last ?t = last (rev (dropWhile isspace s))"
      using ne by (metis append_Nil2 last_appendR takeWhile_dropWhile_id)
    also have "\<dots> = hd (dropWhile isspace s)" using ne2 by (simp add: last_rev)
    finally have "\<not> isspace (last ?t)" using ne2 by (simp add: hd_dropWhile)
    with h show ?thesis by simp
  qed
  show ?thesis
  proof (cases "?t = []")
    case True then show ?thesis by (simp add: strip_def)
  next
    case False
    with ends have "\<not> isspace (hd ?t) \<and> \<not> isspace (last ?t)" by simp
    with False show ?thesis by (simp add: strip_def hd_rev last_rev)
  qed
qed

lemma strip_decomposition:
  "\<exists>a b. s = a @ strip s @ b \<and> list_all isspace a \<and> list_all isspace b"
proof -
  let ?a = "takeWhile isspace s"
  let ?r = "rev (dropWhile isspace s)"
  let ?b = "rev (takeWhile isspace ?r)"
  have "rev ?r = rev (takeWhile isspace ?r @ dropWhile isspace ?r)" by simp
  then have "dropWhile isspace s = strip s @ ?b"
    by (simp add: strip_def del: takeWhile_dropWhile_id)
  then have "s = ?a @ strip s @ ?b"
    by (metis takeWhile_dropWhile_id)
  moreover have "list_all isspace ?a"
    by (simp add: list_all_iff) (meson set_takeWhileD)
  moreover have "list_all isspace ?b"
    by (simp add: list_all_iff) (meson set_takeWhileD)
  ultimately show ?thesis by blast
qed

lemma strip_idem: "strip (strip s) = strip s"
proof (cases "strip s = []")
  case True
  then show ?thesis by (simp add: strip_def [of "[]"])
next
  case False
  with strip_no_space_ends [of s]
  have h: "\<not> isspace (hd (strip s))" and l: "\<not> isspace (last (strip s))" by auto
  from False h have a: "dropWhile isspace (strip s) = strip s"
    by (cases "strip s") auto
  from False l have "dropWhile isspace (rev (strip s)) = rev (strip s)"
    by (cases "rev (strip s)") (auto simp: last_rev hd_rev)
  with a show ?thesis by (simp add: strip_def [of "strip s"])
qed


subsection \<open>Decimal digits\<close>

lemma isdecimal_iff: "isdecimal c \<longleftrightarrow> (\<exists>z\<in>set decimal_zeros. z \<le> c \<and> c < z + 10)"
  by (auto simp: isdecimal_def todecimal_def find_None_iff)

lemma not_isdecimal_punct [simp]: "\<not> isdecimal 43" "\<not> isdecimal 45" "\<not> isdecimal 46" "\<not> isdecimal 95"
  by (simp_all add: isdecimal_iff decimal_zeros_def)

lemma todecimal_ascii: "c < 128 \<Longrightarrow> todecimal c = (if 48 \<le> c \<and> c \<le> 57 then Some (c - 48) else None)"
  by (simp add: todecimal_def decimal_zeros_def)

lemma todecimal_less_10: "todecimal c = Some d \<Longrightarrow> d < 10"
  by (auto simp: todecimal_def dest!: find_Some_iff [THEN iffD1])

lemma decimal_zeros_gaps:
  "z \<in> set decimal_zeros \<Longrightarrow>
     48 \<le> z \<and> (z \<le> 48 \<or> 1632 \<le> z) \<and> (z \<le> 4240 \<or> 6112 \<le> z) \<and> (z \<le> 7248 \<or> 42528 \<le> z)"
  unfolding decimal_zeros_def by (simp, elim disjE) simp_all

lemma isdecimal_not_isspace: "isdecimal c \<Longrightarrow> \<not> isspace c"
proof
  assume "isdecimal c" and sp: "isspace c"
  then obtain z where "z \<in> set decimal_zeros" and z: "z \<le> c" "c < z + 10"
    unfolding isdecimal_iff by blast
  from decimal_zeros_gaps [OF this(1)] z sp show False
    unfolding isspace_def by arith
qed

lemma takeWhile_all: "list_all P xs \<Longrightarrow> takeWhile P (xs @ ys) = xs @ takeWhile P ys"
  by (simp add: list_all_iff)

lemma dropWhile_all: "list_all P xs \<Longrightarrow> dropWhile P (xs @ ys) = dropWhile P ys"
  by (simp add: list_all_iff)

section \<open>The pattern search finds the first number token\<close>

lemma match_number_Some:
  assumes "match_number s = Some m"
  shows "number_token m \<and> (\<exists>post. s = m @ post)"
proof -
  define sg where "sg = (case s of [] \<Rightarrow> [] | c # _ \<Rightarrow> if c = 43 \<or> c = 45 then [c] else [])"
  define r where "r = drop (length sg) s"
  define ds where "ds = takeWhile isdecimal r"
  define r1 where "r1 = dropWhile isdecimal r"
  have sg: "sg = [] \<or> sg = [43] \<or> sg = [45]" and s: "s = sg @ r"
    by (auto simp: sg_def r_def split: list.splits)
  have r: "r = ds @ r1" by (simp add: ds_def r1_def)
  have ds: "list_all isdecimal ds" by (simp add: ds_def list_all_iff) (meson set_takeWhileD)
  from assms have m: "ds \<noteq> [] \<and> (case r1 of [] \<Rightarrow> Some (sg @ ds)
      | c # r2 \<Rightarrow> if c = 46 \<and> takeWhile isdecimal r2 \<noteq> []
                  then Some (sg @ ds @ [46] @ takeWhile isdecimal r2) else Some (sg @ ds)) = Some m"
    unfolding match_number_def Let_def sg_def [symmetric] r_def [symmetric] ds_def [symmetric]
      r1_def [symmetric] by (auto split: if_splits)
  then have ne: "ds \<noteq> []" by simp
  have short: "number_token (sg @ ds)"
    unfolding number_token_def using sg ne ds
    by (intro exI [of _ sg] exI [of _ ds] exI [of _ "[]"]) simp
  show ?thesis
  proof (cases r1)
    case Nil
    with m have "m = sg @ ds" by simp
    with short s r Nil show ?thesis by auto
  next
    case (Cons c r2)
    show ?thesis
    proof (cases "c = 46 \<and> takeWhile isdecimal r2 \<noteq> []")
      case True
      define fd where "fd = takeWhile isdecimal r2"
      from True m Cons have meq: "m = sg @ ds @ 46 # fd" by (simp add: fd_def)
      have fd: "fd \<noteq> []" "list_all isdecimal fd"
        using True by (auto simp: fd_def list_all_iff dest: set_takeWhileD)
      have "number_token m"
        unfolding number_token_def meq using sg ne ds fd
        by (intro exI [of _ sg] exI [of _ ds] exI [of _ "46 # fd"]) simp
      moreover have "s = m @ dropWhile isdecimal r2"
        using s r Cons True by (simp add: meq fd_def)
      ultimately show ?thesis by blast
    next
      case False
      with m Cons have "m = sg @ ds" by (auto split: if_splits)
      with short s r show ?thesis by auto
    qed
  qed
qed

lemma match_number_longest:
  assumes tok: "number_token t" and s: "s = t @ post"
  shows "\<exists>m. match_number s = Some m \<and> length t \<le> length m"
proof -
  from tok obtain sign ds fs where t: "t = sign @ ds @ fs"
    and sign: "sign = [] \<or> sign = [43] \<or> sign = [45]"
    and ds: "ds \<noteq> []" "list_all isdecimal ds"
    and fs: "fs = [] \<or> (\<exists>fd. fs = 46 # fd \<and> fd \<noteq> [] \<and> list_all isdecimal fd)"
    unfolding number_token_def by blast
  from ds obtain d ds' where dcons: "ds = d # ds'" and d: "isdecimal d" by (cases ds) auto
  then have dne: "d \<noteq> 43" "d \<noteq> 45" using not_isdecimal_punct by auto
  define sg where "sg = (case s of [] \<Rightarrow> [] | c # _ \<Rightarrow> if c = 43 \<or> c = 45 then [c] else [])"
  have sg: "sg = sign"
    using sign dne by (auto simp: sg_def s t dcons)
  define r where "r = drop (length sg) s"
  have r: "r = ds @ fs @ post" by (simp add: r_def sg s t)
  define tw where "tw = takeWhile isdecimal (fs @ post)"
  have tk: "takeWhile isdecimal r = ds @ tw" and dr: "dropWhile isdecimal r = dropWhile isdecimal (fs @ post)"
    using ds(2) by (simp_all add: r tw_def takeWhile_all dropWhile_all)
  have unfold: "match_number s =
      (case dropWhile isdecimal (fs @ post) of [] \<Rightarrow> Some (sg @ ds @ tw)
       | c # r2 \<Rightarrow> if c = 46 \<and> takeWhile isdecimal r2 \<noteq> []
                   then Some (sg @ (ds @ tw) @ [46] @ takeWhile isdecimal r2)
                   else Some (sg @ ds @ tw))"
    unfolding match_number_def Let_def sg_def [symmetric] r_def [symmetric] tk dr
    using ds(1) by simp
  from fs show ?thesis
  proof
    assume "fs = []"
    then show ?thesis unfolding unfold by (auto simp: t sg split: list.splits)
  next
    assume "\<exists>fd. fs = 46 # fd \<and> fd \<noteq> [] \<and> list_all isdecimal fd"
    then obtain fd where fd: "fs = 46 # fd" "fd \<noteq> []" "list_all isdecimal fd" by blast
    have "tw = []" by (simp add: tw_def fd(1))
    moreover have "dropWhile isdecimal (fs @ post) = 46 # fd @ post" by (simp add: fd(1))
    moreover have "takeWhile isdecimal (fd @ post) = fd @ takeWhile isdecimal post"
      using fd(3) by (rule takeWhile_all)
    ultimately show ?thesis unfolding unfold using fd(2) by (simp add: t fd(1) sg)
  qed
qed

lemma search_number_None:
  "search_number s = None \<Longrightarrow> s = pre @ t @ post \<Longrightarrow> \<not> number_token t"
proof (induction s arbitrary: pre)
  case Nil
  then show ?case by (auto simp: number_token_def)
next
  case (Cons c s)
  from Cons.prems(1) have none: "match_number (c # s) = None" and rest: "search_number s = None"
    by (auto split: option.splits)
  show ?case
  proof (cases pre)
    case Nil
    with Cons.prems(2) have "c # s = t @ post" by simp
    with none match_number_longest [of t "c # s" post] show ?thesis by auto
  next
    case (Cons p pre')
    with Cons.prems(2) have "s = pre' @ t @ post" by simp
    with rest show ?thesis by (rule Cons.IH)
  qed
qed

lemma search_number_Some:
  "search_number s = Some m \<Longrightarrow> leftmost_token s m"
proof (induction s)
  case Nil
  then show ?case by simp
next
  case (Cons c s)
  show ?case
  proof (cases "match_number (c # s)")
    case (Some m')
    with Cons.prems have m: "match_number (c # s) = Some m" by simp
    from match_number_Some [OF m] obtain post where tok: "number_token m" and s: "c # s = m @ post"
      by blast
    have "length t \<le> length m" if "c # s = t @ post'" "number_token t" for t post'
      using match_number_longest [OF that(2) that(1)] m by simp
    then have "\<forall>pre' t post'. c # s = pre' @ t @ post' \<and> number_token t \<longrightarrow>
        length ([]::pystr) < length pre' \<or> (length ([]::pystr) = length pre' \<and> length t \<le> length m)"
      by (metis append_Nil length_greater_0_conv list.size(3))
    with tok s show ?thesis unfolding leftmost_token_def
      by (intro exI [of _ "[]"] exI [of _ post]) simp
  next
    case None
    with Cons.prems have "search_number s = Some m" by simp
    from Cons.IH [OF this] obtain pre post where s: "s = pre @ m @ post" and tok: "number_token m"
      and first: "\<And>pre' t post'. s = pre' @ t @ post' \<Longrightarrow> number_token t \<Longrightarrow>
           length pre < length pre' \<or> (length pre = length pre' \<and> length t \<le> length m)"
      unfolding leftmost_token_def by blast
    have "length (c # pre) < length pre' \<or> (length (c # pre) = length pre' \<and> length t \<le> length m)"
      if eq: "c # s = pre' @ t @ post'" and t: "number_token t" for pre' t post'
    proof (cases pre')
      case Nil
      with eq have "c # s = t @ post'" by simp
      with None match_number_longest [OF t this] show ?thesis by simp
    next
      case (Cons p pre'')
      with eq have "s = pre'' @ t @ post'" by simp
      from first [OF this t] Cons show ?thesis by simp
    qed
    with tok s show ?thesis unfolding leftmost_token_def
      by (intro exI [of _ "c # pre"] exI [of _ post]) auto
  qed
qed

lemma leftmost_token_unique:
  assumes "leftmost_token s g" and "leftmost_token s m"
  shows "g = m"
proof -
  from assms(1) obtain pre post where g: "s = pre @ g @ post" "number_token g"
    and gmin: "\<And>pre' t post'. s = pre' @ t @ post' \<Longrightarrow> number_token t \<Longrightarrow>
       length pre < length pre' \<or> (length pre = length pre' \<and> length t \<le> length g)"
    unfolding leftmost_token_def by blast
  from assms(2) obtain pre' post' where m: "s = pre' @ m @ post'" "number_token m"
    and mmin: "\<And>pre t post. s = pre @ t @ post \<Longrightarrow> number_token t \<Longrightarrow>
       length pre' < length pre \<or> (length pre' = length pre \<and> length t \<le> length m)"
    unfolding leftmost_token_def by blast
  from gmin [OF m] mmin [OF g] have len: "length pre = length pre'" "length g = length m"
    by auto
  from g(1) m(1) have "pre @ g @ post = pre' @ m @ post'" by simp
  with len show ?thesis by simp
qed

section \<open>\<open>float\<close> reads every number token\<close>

lemma transform_good:
  "list_all (\<lambda>c. c < 127 \<or> isdecimal c) xs \<Longrightarrow>
   transform_decimal_and_space xs = map ascii_digit xs"
proof (induction xs)
  case Nil
  then show ?case by simp
next
  case (Cons c xs)
  then have IH: "transform_decimal_and_space xs = map ascii_digit xs" by simp
  show ?case
  proof (cases "c < 127")
    case True
    then show ?thesis by (simp add: IH ascii_digit_def)
  next
    case False
    with Cons.prems have dec: "isdecimal c" by simp
    then obtain d where "todecimal c = Some d" by (auto simp: isdecimal_def)
    with False isdecimal_not_isspace [OF dec] show ?thesis by (simp add: IH ascii_digit_def)
  qed
qed

lemma to_ascii_good:
  assumes "list_all (\<lambda>c. c < 127 \<or> isdecimal c) xs"
  shows "to_ascii xs = map ascii_digit xs"
proof (cases "list_all (\<lambda>c. c < 128) xs")
  case True
  have "c < 127" if "c \<in> set xs" for c
  proof -
    from that True assms have "c < 128" "c < 127 \<or> isdecimal c" by (auto simp: list_all_iff)
    moreover have "\<not> isdecimal 127" by (simp add: isdecimal_iff decimal_zeros_def)
    ultimately show ?thesis by (cases "c = 127") auto
  qed
  then have "map ascii_digit xs = xs" by (simp add: ascii_digit_def map_idI)
  with True show ?thesis by (simp add: to_ascii_def)
next
  case False
  with assms show ?thesis by (simp add: to_ascii_def transform_good)
qed

lemma isdigit_ascii_digit: "isdecimal c \<Longrightarrow> isdigit_c (ascii_digit c)"
proof (cases "c < 127")
  case True
  assume "isdecimal c"
  with True show ?thesis
    by (auto simp: ascii_digit_def isdigit_c_def isdecimal_def todecimal_ascii split: if_splits)
next
  case False
  assume "isdecimal c"
  then obtain d where "todecimal c = Some d" by (auto simp: isdecimal_def)
  with False todecimal_less_10 [OF this] show ?thesis
    by (simp add: ascii_digit_def isdigit_c_def)
qed

lemma to_ascii_token:
  assumes "number_token g"
  shows "ascii_token (to_ascii g)"
proof -
  from assms obtain sign ds fs where g: "g = sign @ ds @ fs"
    and sign: "sign = [] \<or> sign = [43] \<or> sign = [45]"
    and ds: "ds \<noteq> []" "list_all isdecimal ds"
    and fs: "fs = [] \<or> (\<exists>fd. fs = 46 # fd \<and> fd \<noteq> [] \<and> list_all isdecimal fd)"
    unfolding number_token_def by blast
  have p: "ascii_digit 43 = 43" "ascii_digit 45 = 45" "ascii_digit 46 = 46"
    by (simp_all add: ascii_digit_def)
  have good_sign: "list_all (\<lambda>c. c < 127 \<or> isdecimal c) sign"
    using sign by (elim disjE) simp_all
  have good_ds: "list_all (\<lambda>c. c < 127 \<or> isdecimal c) ds"
    using ds(2) by (simp add: list_all_iff)
  have s': "map ascii_digit sign = sign" using sign p by (elim disjE) simp_all
  have d': "map ascii_digit ds \<noteq> []" "list_all isdigit_c (map ascii_digit ds)"
    using ds by (simp_all add: list_all_iff isdigit_ascii_digit)
  have f': "list_all (\<lambda>c. c < 127 \<or> isdecimal c) fs \<and> (map ascii_digit fs = [] \<or>
      (\<exists>fd. map ascii_digit fs = 46 # fd \<and> fd \<noteq> [] \<and> list_all isdigit_c fd))"
    using fs
  proof
    assume "fs = []" then show ?thesis by simp
  next
    assume "\<exists>fd. fs = 46 # fd \<and> fd \<noteq> [] \<and> list_all isdecimal fd"
    then obtain fd where fd: "fs = 46 # fd" "fd \<noteq> []" "list_all isdecimal fd" by blast
    have "map ascii_digit fs = 46 # map ascii_digit fd" by (simp add: fd(1) p)
    moreover have "map ascii_digit fd \<noteq> []" using fd(2) by simp
    moreover have "list_all isdigit_c (map ascii_digit fd)"
      using fd(3) by (simp add: list_all_iff isdigit_ascii_digit)
    moreover have "list_all (\<lambda>c. c < 127 \<or> isdecimal c) fs"
      using fd(3) by (simp add: fd(1) list_all_iff)
    ultimately show ?thesis by simp
  qed
  have good: "list_all (\<lambda>c. c < 127 \<or> isdecimal c) g"
    using good_sign good_ds f' by (simp add: g)
  have a: "to_ascii g = sign @ map ascii_digit ds @ map ascii_digit fs"
    using to_ascii_good [OF good] by (simp add: g s')
  show ?thesis unfolding ascii_token_def a
    using sign d' f'
    by (intro exI [of _ sign] exI [of _ "map ascii_digit ds"] exI [of _ "map ascii_digit fs"]) simp
qed

lemma parse_decimal_digits:
  assumes ds: "ds \<noteq> []" "list_all isdigit_c ds"
    and fs: "fs = [] \<or> (\<exists>fd. fs = 46 # fd \<and> fd \<noteq> [] \<and> list_all isdigit_c fd)"
  shows "\<exists>q. parse_decimal (ds @ fs) = Some q"
proof -
  have nd: "\<not> isdigit_c 46" by (simp add: isdigit_c_def)
  from fs show ?thesis
  proof
    assume e: "fs = []"
    have tk: "takeWhile isdigit_c ds = ds" and dr: "dropWhile isdigit_c ds = []"
      using ds(2) by (simp_all add: list_all_iff)
    show ?thesis using ds(1) by (simp add: e parse_decimal_def parse_exponent_def Let_def tk dr)
  next
    assume "\<exists>fd. fs = 46 # fd \<and> fd \<noteq> [] \<and> list_all isdigit_c fd"
    then obtain fd where fd: "fs = 46 # fd" "fd \<noteq> []" "list_all isdigit_c fd" by blast
    have tk: "takeWhile isdigit_c (ds @ fs) = ds" and dr: "dropWhile isdigit_c (ds @ fs) = 46 # fd"
      using ds(2) nd by (simp_all add: fd(1) takeWhile_all dropWhile_all)
    have tk2: "takeWhile isdigit_c fd = fd" and dr2: "dropWhile isdigit_c fd = []"
      using fd(3) by (simp_all add: list_all_iff)
    show ?thesis using ds(1)
      by (simp add: parse_decimal_def parse_exponent_def Let_def tk dr tk2 dr2)
  qed
qed

lemma float_of_ascii_token:
  assumes tok: "ascii_token a" and a: "to_ascii s = a"
  shows "\<exists>x. float_of_str s = Inr x"
proof -
  from tok obtain sign ds fs where a': "a = sign @ ds @ fs"
    and sign: "sign = [] \<or> sign = [43] \<or> sign = [45]"
    and ds: "ds \<noteq> []" "list_all isdigit_c ds"
    and fs: "fs = [] \<or> (\<exists>fd. fs = 46 # fd \<and> fd \<noteq> [] \<and> list_all isdigit_c fd)"
    unfolding ascii_token_def by blast
  from ds obtain d ds' where dcons: "ds = d # ds'" and d: "isdigit_c d" by (cases ds) auto
  have chars: "\<And>c. c \<in> set a \<Longrightarrow> c = 43 \<or> c = 45 \<or> c = 46 \<or> isdigit_c c"
    using sign ds(2) fs by (auto simp: a' list_all_iff)
  have no95: "95 \<notin> set a" using chars [of 95] by (auto simp: isdigit_c_def)
  then have filt: "filter (\<lambda>c. c \<noteq> 95) a = a" by (auto intro: filter_True)
  have ane: "a \<noteq> []" using ds(1) by (simp add: a')
  have nsp: "\<not> isspace_c c" if "c \<in> set a" for c
    using chars [OF that] by (auto simp: isspace_c_def isdigit_c_def)
  have "\<not> isspace_c (hd a)" "\<not> isspace_c (last a)" using ane nsp by auto
  then have "dropWhile isspace_c a = a" "dropWhile isspace_c (rev a) = rev a"
    using ane by (simp_all add: dropWhile_eq_self_iff hd_rev)
  then have strip: "rev (dropWhile isspace_c (rev (dropWhile isspace_c a))) = a"
    by simp
  have "\<exists>neg. opt_sign a = (neg, ds @ fs)"
    using sign d by (auto simp: a' dcons isdigit_c_def)
  then obtain neg where os: "opt_sign a = (neg, ds @ fs)" by blast
  have low: "hd (lower (ds @ fs)) = d"
    using d by (simp add: dcons lower_def isdigit_c_def)
  have words: "hd (ascii ''inf'') = 105" "hd (ascii ''infinity'') = 105" "hd (ascii ''nan'') = 110"
    by (simp_all add: ascii_def)
  have "d \<noteq> 105" "d \<noteq> 110" using d by (auto simp: isdigit_c_def)
  with low words
  have notword: "lower (ds @ fs) \<noteq> ascii ''inf''" "lower (ds @ fs) \<noteq> ascii ''infinity''"
    "lower (ds @ fs) \<noteq> ascii ''nan''"
    by metis+
  from parse_decimal_digits [OF ds fs] obtain q where "parse_decimal (ds @ fs) = Some q" by blast
  then show ?thesis
    unfolding float_of_str_def a Let_def filt strip os using no95 ane notword
    by (cases q) simp
qed

lemma float_of_number_token: "number_token g \<Longrightarrow> \<exists>x. float_of_str g = Inr x"
  using float_of_ascii_token [OF to_ascii_token] by blast

lemma float_of_str_error: "float_of_str s = Inl e \<Longrightarrow> e = ValueError"
  unfolding float_of_str_def
  by (simp add: Let_def split: if_splits option.splits prod.splits)

lemma str_of_error:
  "str_of v = Inl e \<longleftrightarrow> (\<exists>i. v = PyInt i \<and> 4300 < length (digits_of \<bar>i\<bar>) \<and> e = ValueError)"
  by (cases v) (auto simp: int_repr_def)

lemma str_of_text: "(\<forall>s. str_of v \<noteq> Inr s) \<longleftrightarrow> (\<exists>e. str_of v = Inl e)"
  by (cases "str_of v") simp_all

lemma clean_distance_returns:
  assumes "str_of v = Inr s"
  shows "\<exists>x. clean_distance v = (Inr x, [])"
proof (cases "is_missing v")
  case True
  then show ?thesis by (simp add: clean_distance_def)
next
  case False
  show ?thesis
  proof (cases "search_number s")
    case None
    with False assms show ?thesis by (simp add: clean_distance_def)
  next
    case (Some g)
    from search_number_Some [OF this] have "number_token g" by (auto simp: leftmost_token_def)
    from float_of_number_token [OF this] obtain x where "float_of_str g = Inr x" by blast
    with False Some assms show ?thesis by (simp add: clean_distance_def)
  qed
qed

lemma clean_distance_silent: "snd (clean_distance v) = []"
  by (simp add: clean_distance_def split: option.splits sum.splits)

lemma digits_of_power10: "digits_of (10 ^ n) = 49 # replicate n 48"
proof (induction n)
  case 0
  show ?case by (simp add: digits_of_eval)
next
  case (Suc n)
  have "(10::int) \<le> 10 ^ Suc n" by simp
  then have "digits_of (10 ^ Suc n) = digits_of (10 ^ Suc n div 10) @ [nat (48 + 10 ^ Suc n mod 10)]"
    by (rule digits_of_eval(2))
  also have "\<dots> = digits_of (10 ^ n) @ [48]" by simp
  also have "\<dots> = 49 # replicate (Suc n) 48" by (simp add: Suc.IH replicate_append_same)
  finally show ?case .
qed

lemma str_of_power10: "4300 \<le> n \<Longrightarrow> str_of (PyInt (10 ^ n)) = Inl ValueError"
  by (simp add: int_repr_def digits_of_power10)

lemma clean_distance_power10:
  "4300 \<le> n \<Longrightarrow> clean_distance (PyInt (10 ^ n)) = (Inl ValueError, [])"
  by (simp add: clean_distance_def str_of_power10 del: str_of.simps)

lemma is_missing_int: "\<not> is_missing (PyInt i)"
  by simp

section \<open>Counting and duplicates\<close>

lemma map_entry_tabulate:
  "distinct cols \<Longrightarrow>
   AList.map_entry a g (map (\<lambda>c. (c, f c)) cols) = map (\<lambda>c. (c, (f(a := g (f a))) c)) cols"
  by (induction cols) auto

lemma count_fold_tabulate:
  "distinct cols \<Longrightarrow> distinct cs \<Longrightarrow>
   fold (\<lambda>col m. if P col then AList.map_entry col g m else m) cs (map (\<lambda>c. (c, f c)) cols)
   = map (\<lambda>c. (c, if c \<in> set cs \<and> P c then g (f c) else f c)) cols"
proof (induction cs arbitrary: f)
  case Nil
  then show ?case by simp
next
  case (Cons a cs)
  show ?case
  proof (cases "P a")
    case True
    have "fold (\<lambda>col m. if P col then AList.map_entry col g m else m) (a # cs) (map (\<lambda>c. (c, f c)) cols)
        = fold (\<lambda>col m. if P col then AList.map_entry col g m else m) cs
            (map (\<lambda>c. (c, (f(a := g (f a))) c)) cols)"
      using True Cons.prems(1) by (simp add: map_entry_tabulate)
    also have "\<dots> = map (\<lambda>c. (c, if c \<in> set cs \<and> P c then g ((f(a := g (f a))) c) else (f(a := g (f a))) c)) cols"
      using Cons.prems by (intro Cons.IH) auto
    also have "\<dots> = map (\<lambda>c. (c, if c \<in> set (a # cs) \<and> P c then g (f c) else f c)) cols"
      using Cons.prems(2) True by auto
    finally show ?thesis .
  next
    case False
    then show ?thesis using Cons by auto
  qed
qed

lemma count_row_tabulate:
  "distinct cols \<Longrightarrow>
   count_row cols row (map (\<lambda>c. (c, f c)) cols)
   = map (\<lambda>c. (c, if is_missing (dict_get row c) then f c + 1 else f c)) cols"
  unfolding count_row_def by (subst count_fold_tabulate) auto

lemma fold_count_row_tabulate:
  "distinct cols \<Longrightarrow>
   fold (count_row cols) rows (map (\<lambda>c. (c, f c)) cols)
   = map (\<lambda>c. (c, f c + int (length (filter (\<lambda>r. is_missing (dict_get r c)) rows)))) cols"
proof (induction rows arbitrary: f)
  case Nil
  then show ?case by simp
next
  case (Cons r rows)
  have "fold (count_row cols) (r # rows) (map (\<lambda>c. (c, f c)) cols)
      = fold (count_row cols) rows
          (map (\<lambda>c. (c, if is_missing (dict_get r c) then f c + 1 else f c)) cols)"
    using Cons.prems by (simp add: count_row_tabulate)
  also have "\<dots> = map (\<lambda>c. (c, (if is_missing (dict_get r c) then f c + 1 else f c)
                  + int (length (filter (\<lambda>r. is_missing (dict_get r c)) rows)))) cols"
    using Cons.prems by (rule Cons.IH)
  also have "\<dots> = map (\<lambda>c. (c, f c + int (length (filter (\<lambda>r. is_missing (dict_get r c)) (r # rows))))) cols"
    by simp
  finally show ?case .
qed

lemma py_eq_iff:
  "py_eq a b \<longleftrightarrow>
     (a = PyNone \<and> b = PyNone) \<or> (\<exists>s. a = PyStr s \<and> b = PyStr s) \<or>
     (\<exists>x. number a = Some x \<and> number b = Some x)"
  by (cases a; cases b) (auto split: option.splits)

lemma py_eq_sym: "py_eq a b \<Longrightarrow> py_eq b a"
  unfolding py_eq_iff by auto

lemma py_eq_trans: "py_eq a b \<Longrightarrow> py_eq b c \<Longrightarrow> py_eq a c"
  unfolding py_eq_iff by auto

lemma item_eq_sym: "item_eq p q \<Longrightarrow> item_eq q p"
  by (auto simp: item_eq_def dest: py_eq_sym)

lemma item_eq_trans: "item_eq p q \<Longrightarrow> item_eq q r \<Longrightarrow> item_eq p r"
  by (auto simp: item_eq_def dest: py_eq_trans)

lemma same_items_sym: "same_items a b \<Longrightarrow> same_items b a"
  unfolding same_items_def list_all_iff list_ex_iff by (meson item_eq_sym)

lemma same_items_trans: "same_items a b \<Longrightarrow> same_items b c \<Longrightarrow> same_items a c"
  unfolding same_items_def list_all_iff list_ex_iff by (meson item_eq_trans)

lemma distinct_keys_sort: "distinct (keys a) \<Longrightarrow> distinct (map fst (sort_key fst a))"
  by (simp add: keys_def distinct_map)

lemma tuple_eq_imp_same_items:
  assumes "tuple_eq (sort_key fst a) (sort_key fst b)"
  shows "same_items a b"
proof -
  let ?xs = "sort_key fst a" and ?ys = "sort_key fst b"
  from assms have len: "length ?xs = length ?ys"
    and nth: "\<And>i. i < length ?xs \<Longrightarrow> item_eq (?xs ! i) (?ys ! i)"
    by (auto simp: tuple_eq_def list_all2_conv_all_nth)
  have "\<exists>q\<in>set b. item_eq p q" if "p \<in> set a" for p
  proof -
    from that have "p \<in> set ?xs" by simp
    then obtain i where "i < length ?xs" "?xs ! i = p" by (metis in_set_conv_nth)
    with nth [of i] have "item_eq p (?ys ! i)" by simp
    moreover from \<open>i < length ?xs\<close> len have "?ys ! i \<in> set b" by (metis nth_mem set_sort)
    ultimately show ?thesis by blast
  qed
  moreover have "\<exists>p\<in>set a. item_eq p q" if "q \<in> set b" for q
  proof -
    from that have "q \<in> set ?ys" by simp
    then obtain i where "i < length ?ys" "?ys ! i = q" by (metis in_set_conv_nth)
    with nth [of i] len have "item_eq (?xs ! i) q" by simp
    moreover from \<open>i < length ?ys\<close> len have "?xs ! i \<in> set a" by (metis nth_mem set_sort)
    ultimately show ?thesis by blast
  qed
  ultimately show ?thesis by (simp add: same_items_def list_all_iff list_ex_iff)
qed

lemma same_items_imp_tuple_eq:
  assumes da: "distinct (keys a)" and db: "distinct (keys b)" and same: "same_items a b"
  shows "tuple_eq (sort_key fst a) (sort_key fst b)"
proof -
  let ?xs = "sort_key fst a" and ?ys = "sort_key fst b"
  from same have ab: "\<And>p. p \<in> set a \<Longrightarrow> \<exists>q\<in>set b. item_eq p q"
    and ba: "\<And>q. q \<in> set b \<Longrightarrow> \<exists>p\<in>set a. item_eq p q"
    by (auto simp: same_items_def list_all_iff list_ex_iff)
  have "fst ` set a = fst ` set b"
  proof (intro equalityI subsetI)
    fix k assume "k \<in> fst ` set a"
    then obtain p where "p \<in> set a" "fst p = k" by auto
    with ab [of p] show "k \<in> fst ` set b" by (force simp: item_eq_def)
  next
    fix k assume "k \<in> fst ` set b"
    then obtain q where "q \<in> set b" "fst q = k" by auto
    with ba [of q] show "k \<in> fst ` set a" by (auto simp: item_eq_def) (metis fst_conv imageI)
  qed
  then have "set (map fst ?xs) = set (map fst ?ys)" by simp
  moreover have "sorted (map fst ?xs)" "sorted (map fst ?ys)" by (rule sorted_sort_key)+
  moreover have "distinct (map fst ?xs)" "distinct (map fst ?ys)"
    using da db by (simp_all add: distinct_keys_sort)
  ultimately have keys_eq: "map fst ?xs = map fst ?ys"
    by (metis sorted_distinct_set_unique)
  then have len: "length ?xs = length ?ys" by (metis length_map)
  have "item_eq (?xs ! i) (?ys ! i)" if i: "i < length ?xs" for i
  proof -
    from i have pa: "?xs ! i \<in> set a" by (metis nth_mem set_sort)
    from i len have qb: "?ys ! i \<in> set b" by (metis nth_mem set_sort)
    from keys_eq i len have k: "fst (?xs ! i) = fst (?ys ! i)"
      by (metis nth_map)
    from ab [OF pa] obtain q where q: "q \<in> set b" "item_eq (?xs ! i) q" by auto
    then have "fst q = fst (?ys ! i)" using k by (simp add: item_eq_def)
    with q(1) qb db have "q = ?ys ! i"
      by (metis eq_key_imp_eq_value keys_def prod.collapse)
    with q(2) show ?thesis by simp
  qed
  with len show ?thesis by (simp add: tuple_eq_def list_all2_conv_all_nth)
qed

lemma tuple_eq_iff_same_items:
  "distinct (keys a) \<Longrightarrow> distinct (keys b) \<Longrightarrow>
   tuple_eq (sort_key fst a) (sort_key fst b) \<longleftrightarrow> same_items a b"
  using tuple_eq_imp_same_items same_items_imp_tuple_eq by blast

lemma dup_loop_later_copies:
  assumes "\<forall>r\<in>set S \<union> set rs. distinct (keys r)"
    and "seen = map (sort_key fst) S"
    and "\<forall>r. distinct (keys r) \<longrightarrow>
           (list_ex (\<lambda>p. same_items p r) P \<longleftrightarrow> list_ex (\<lambda>p. same_items p r) S)"
  shows "dup_loop rs seen dups = dups @ later_copies P rs"
  using assms
proof (induction rs arbitrary: S seen P dups)
  case Nil
  then show ?case by simp
next
  case (Cons r rs)
  from Cons.prems(1) have wr: "distinct (keys r)" and wS: "\<forall>p\<in>set S. distinct (keys p)" by auto
  have member: "list_ex (\<lambda>t. tuple_eq t (sort_key fst r)) seen \<longleftrightarrow> list_ex (\<lambda>p. same_items p r) S"
    using wS wr by (auto simp: Cons.prems(2) list_ex_iff tuple_eq_iff_same_items)
  also have "\<dots> \<longleftrightarrow> list_ex (\<lambda>p. same_items p r) P"
    using Cons.prems(3) wr by simp
  finally have member': "list_ex (\<lambda>t. tuple_eq t (sort_key fst r)) seen \<longleftrightarrow> list_ex (\<lambda>p. same_items p r) P" .
  show ?case
  proof (cases "list_ex (\<lambda>p. same_items p r) P")
    case True
    then obtain p where p: "p \<in> set S" "same_items p r"
      using Cons.prems(3) wr by (auto simp: list_ex_iff)
    have repr: "\<forall>x. distinct (keys x) \<longrightarrow>
           (list_ex (\<lambda>p. same_items p x) (P @ [r]) \<longleftrightarrow> list_ex (\<lambda>p. same_items p x) S)"
    proof (intro allI impI)
      fix x :: row assume wx: "distinct (keys x)"
      have "same_items r x \<Longrightarrow> list_ex (\<lambda>p. same_items p x) S"
        using p by (auto simp: list_ex_iff intro: same_items_trans)
      with Cons.prems(3) wx
      show "list_ex (\<lambda>p. same_items p x) (P @ [r]) \<longleftrightarrow> list_ex (\<lambda>p. same_items p x) S"
        by auto
    qed
    have "dup_loop rs seen (dups @ [r]) = (dups @ [r]) @ later_copies (P @ [r]) rs"
      using Cons.prems(1) Cons.prems(2) repr by (intro Cons.IH) auto
    with True member' show ?thesis by simp
  next
    case False
    have repr: "\<forall>x. distinct (keys x) \<longrightarrow>
           (list_ex (\<lambda>p. same_items p x) (P @ [r]) \<longleftrightarrow> list_ex (\<lambda>p. same_items p x) (S @ [r]))"
      using Cons.prems(3) by auto
    have "dup_loop rs (seen @ [sort_key fst r]) dups = dups @ later_copies (P @ [r]) rs"
      using Cons.prems(1) repr by (intro Cons.IH [where S = "S @ [r]"]) (auto simp: Cons.prems(2))
    with False member' show ?thesis by simp
  qed
qed

lemma later_copies_index:
  "later_copies P rs =
     map (nth (P @ rs))
       (filter (\<lambda>j. \<exists>i<j. same_items ((P @ rs) ! i) ((P @ rs) ! j))
          [length P..<length P + length rs])"
proof (induction rs arbitrary: P)
  case Nil
  then show ?case by simp
next
  case (Cons r rs)
  define L where "L = P @ r # rs"
  define Q where "Q j \<longleftrightarrow> (\<exists>i<j. same_items (L ! i) (L ! j))" for j
  have L: "L = (P @ [r]) @ rs" by (simp add: L_def)
  have "(\<exists>i<length P. same_items (P ! i) r) \<longleftrightarrow> (\<exists>p\<in>set P. same_items p r)"
    by (metis in_set_conv_nth)
  then have here: "Q (length P) \<longleftrightarrow> list_ex (\<lambda>p. same_items p r) P"
    by (auto simp: Q_def L_def list_ex_iff nth_append)
  have at: "L ! length P = r" by (simp add: L_def)
  have upt: "[length P..<length P + length (r # rs)]
      = length P # [Suc (length P)..<Suc (length P) + length rs]"
    by (subst upt_rec) simp
  have tail: "later_copies (P @ [r]) rs
      = map (nth L) (filter Q [Suc (length P)..<Suc (length P) + length rs])"
    using Cons.IH [of "P @ [r]"] unfolding L [symmetric] Q_def by simp
  have "later_copies P (r # rs) = map (nth L) (filter Q [length P..<length P + length (r # rs)])"
    unfolding upt using here at tail by simp
  then show ?case unfolding L_def Q_def .
qed

section \<open>Claims\<close>

subsection \<open>C1: missing values\<close>

text \<open>
  C1, as the code has it. \<open>is_missing\<close> holds of \<^verbatim>\<open>None\<close>; of a text exactly when
  the text without its leading and trailing whitespace is one of the ten tokens
  \<^verbatim>\<open>NA\<close>, \<^verbatim>\<open>N/A\<close>, \<^verbatim>\<open>n/a\<close>, \<^verbatim>\<open>NULL\<close>, \<^verbatim>\<open>null\<close>, \<^verbatim>\<open>None\<close>, \<^verbatim>\<open>.\<close>, \<^verbatim>\<open>-\<close>,
  the em-dash or the empty text; and of no integer and no float. The lower-case
  \<^verbatim>\<open>na\<close> is not among the tokens.
\<close>

theorem is_missing_tokens:
  "is_missing PyNone \<and>
   (is_missing (PyStr s) \<longleftrightarrow>
      strip s = ascii ''NA'' \<or> strip s = ascii ''N/A'' \<or> strip s = ascii ''n/a'' \<or>
      strip s = ascii ''NULL'' \<or> strip s = ascii ''null'' \<or> strip s = ascii ''None'' \<or>
      strip s = ascii ''.'' \<or> strip s = ascii ''-'' \<or> strip s = [8212] \<or> strip s = []) \<and>
   \<not> is_missing (PyInt i) \<and> \<not> is_missing (PyFloat x)"
  by (auto simp: NA_TOKENS_def)

text \<open>
  C1 as stated lists the token \<^verbatim>\<open>na\<close>: the text \<^verbatim>\<open>na\<close> is its own trimmed form,
  and the code does not take it for missing.
\<close>

theorem is_missing_na_counterexample:
  "strip (ascii ''na'') = ascii ''na'' \<and> \<not> is_missing (PyStr (ascii ''na''))"
  by (simp add: text_eval)

subsection \<open>C2: warnings of \<^verbatim>\<open>clean_currency\<close>\<close>

text \<open>
  C2, as the code has it: the range warnings belong to the text path. For a text that is
  not missing and whose cleaned form (without \<^verbatim>\<open>$\<close> and \<^verbatim>\<open>,\<close>, stripped) is not empty:
  if the cleaned form reads as a float, \<open>clean_currency\<close> returns that float unchanged
  and prints a warning exactly when the float is below zero or above one billion; if it
  does not, \<open>clean_currency\<close> prints a warning and returns \<^verbatim>\<open>None\<close>, and raises
  nothing. For an input that is a number already, \<open>clean_currency\<close> is \<^verbatim>\<open>float(val)\<close>
  with nothing printed: the float that \<open>float_of_int\<close> gives for an \<^verbatim>\<open>int\<close> (or the
  exception it raises), and the value itself for a \<^verbatim>\<open>float\<close>. For a missing value, and
  for a text whose cleaned form is empty, \<open>clean_currency\<close> returns \<^verbatim>\<open>None\<close> with
  nothing printed.
\<close>

theorem clean_currency_warnings:
  assumes "\<not> is_missing (PyStr s)" and "currency_text s \<noteq> []"
  shows "(\<forall>v. float_of_str (currency_text s) = Inr v \<longrightarrow>
            fst (clean_currency (PyStr s)) = Inr (Some v) \<and>
            (snd (clean_currency (PyStr s)) \<noteq> [] \<longleftrightarrow> float_lt_zero v \<or> float_gt_1e9 v)) \<and>
         ((\<exists>e. float_of_str (currency_text s) = Inl e) \<longrightarrow>
            fst (clean_currency (PyStr s)) = Inr None \<and> snd (clean_currency (PyStr s)) \<noteq> []) \<and>
         clean_currency (PyInt i) =
           (case float_of_int i of Inl e \<Rightarrow> Inl e | Inr y \<Rightarrow> Inr (Some y), []) \<and>
         clean_currency (PyFloat x) = (Inr (Some x), []) \<and>
         (currency_text t = [] \<longrightarrow> clean_currency (PyStr t) = (Inr None, [])) \<and>
         (is_missing u \<longrightarrow> clean_currency u = (Inr None, []))"
proof -
  have "fst (clean_currency (PyStr s)) = Inr (Some v) \<and>
        (snd (clean_currency (PyStr s)) \<noteq> [] \<longleftrightarrow> float_lt_zero v \<or> float_gt_1e9 v)"
    if "float_of_str (currency_text s) = Inr v" for v
    using assms that by (simp add: clean_currency_def parse_currency_def)
  moreover have "fst (clean_currency (PyStr s)) = Inr None \<and> snd (clean_currency (PyStr s)) \<noteq> []"
    if "float_of_str (currency_text s) = Inl e" for e
    using assms that float_of_str_error [OF that] by (simp add: clean_currency_def parse_currency_def)
  moreover have "clean_currency (PyInt i) =
      (case float_of_int i of Inl e \<Rightarrow> Inl e | Inr y \<Rightarrow> Inr (Some y), [])"
    by (simp add: clean_currency_def split: sum.splits)
  moreover have "clean_currency (PyFloat x) = (Inr (Some x), [])"
    by (simp add: clean_currency_def)
  moreover have "clean_currency (PyStr t) = (Inr None, [])" if "currency_text t = []"
    using that by (simp add: clean_currency_def parse_currency_def)
  moreover have "clean_currency u = (Inr None, [])" if "is_missing u"
    using that by (simp add: clean_currency_def)
  ultimately show ?thesis by blast
qed

text \<open>
  The theorem at the texts \<^verbatim>\<open>-5\<close> (a negative amount, returned with a warning) and
  \<^verbatim>\<open>abc\<close> (no number, \<^verbatim>\<open>None\<close> with a warning), at the text \<^verbatim>\<open>$\<close> (an empty cleaned
  form) and at the missing text \<^verbatim>\<open>NA\<close>.
\<close>

theorem clean_currency_warnings_witness:
  "\<not> is_missing (PyStr (ascii ''-5'')) \<and> currency_text (ascii ''-5'') \<noteq> [] \<and>
   float_of_str (currency_text (ascii ''-5'')) = Inr (Finite (- 5)) \<and>
   fst (clean_currency (PyStr (ascii ''-5''))) = Inr (Some (Finite (- 5))) \<and>
   snd (clean_currency (PyStr (ascii ''-5''))) \<noteq> [] \<and>
   \<not> is_missing (PyStr (ascii ''abc'')) \<and> currency_text (ascii ''abc'') \<noteq> [] \<and>
   float_of_str (currency_text (ascii ''abc'')) = Inl ValueError \<and>
   fst (clean_currency (PyStr (ascii ''abc''))) = Inr None \<and>
   snd (clean_currency (PyStr (ascii ''abc''))) \<noteq> [] \<and>
   currency_text (ascii ''$'') = [] \<and> clean_currency (PyStr (ascii ''$'')) = (Inr None, []) \<and>
   is_missing (PyStr (ascii ''NA'')) \<and> clean_currency (PyStr (ascii ''NA'')) = (Inr None, [])"
proof -
  have m5: "\<not> is_missing (PyStr (ascii ''-5''))" "currency_text (ascii ''-5'') = ascii ''-5''"
    by (simp_all add: currency_text_def text_eval)
  have f5: "float_of_str (ascii ''-5'') = Inr (Finite (- 5))"
    by (simp add: float_eval)
  have mabc: "\<not> is_missing (PyStr (ascii ''abc''))"
    "currency_text (ascii ''abc'') = ascii ''abc''"
    by (simp_all add: currency_text_def text_eval)
  have fabc: "float_of_str (ascii ''abc'') = Inl ValueError"
    by (simp add: float_eval)
  have ne: "ascii ''-5'' \<noteq> []" "ascii ''abc'' \<noteq> []" by (simp_all add: ascii_def)
  have dollar: "currency_text (ascii ''$'') = []"
    by (simp add: currency_text_def text_eval)
  have na: "is_missing (PyStr (ascii ''NA''))"
    by (simp add: text_eval)
  from clean_currency_warnings [of "ascii ''-5''"] m5 f5 ne
  have "fst (clean_currency (PyStr (ascii ''-5''))) = Inr (Some (Finite (- 5))) \<and>
        snd (clean_currency (PyStr (ascii ''-5''))) \<noteq> []"
    by simp
  moreover from clean_currency_warnings [of "ascii ''abc''"] mabc fabc ne
  have "fst (clean_currency (PyStr (ascii ''abc''))) = Inr None \<and>
        snd (clean_currency (PyStr (ascii ''abc''))) \<noteq> []"
    by simp
  moreover from clean_currency_warnings
    [of "ascii ''abc''" 0 "Finite 0" "ascii ''$''" "PyStr (ascii ''NA'')"] mabc ne dollar na
  have "clean_currency (PyStr (ascii ''$'')) = (Inr None, []) \<and>
        clean_currency (PyStr (ascii ''NA'')) = (Inr None, [])"
    by (simp del: is_missing.simps)
  ultimately show ?thesis using m5 f5 mabc fabc ne dollar na by simp
qed

text \<open>
  C2 as stated has the warning on every path. The numbers \<^verbatim>\<open>-5\<close> and
  \<^verbatim>\<open>2_000_000_000\<close> are returned as floats with nothing printed; and the text \<^verbatim>\<open>$\<close>,
  which is not missing and whose cleaned form \<open>float\<close> does not read, gives \<^verbatim>\<open>None\<close>
  with nothing printed.
\<close>

theorem clean_currency_number_counterexample:
  "clean_currency (PyInt (- 5)) = (Inr (Some (Finite (- 5))), []) \<and>
   clean_currency (PyInt 2000000000) = (Inr (Some (Finite 2000000000)), []) \<and>
   \<not> is_missing (PyStr (ascii ''$'')) \<and>
   float_of_str (currency_text (ascii ''$'')) = Inl ValueError \<and>
   clean_currency (PyStr (ascii ''$'')) = (Inr None, [])"
proof -
  have "float_of_int (- 5) = Inr (Finite (- 5))" by (simp add: float_eval)
  moreover have "float_of_int 2000000000 = Inr (Finite 2000000000)" by (simp add: float_eval)
  moreover have "\<not> is_missing (PyStr (ascii ''$''))" "currency_text (ascii ''$'') = []"
    by (simp_all add: currency_text_def text_eval)
  moreover have "float_of_str [] = Inl ValueError" by (simp add: float_eval)
  ultimately show ?thesis by (simp add: clean_currency_def parse_currency_def)
qed

subsection \<open>C4: duplicates\<close>

text \<open>
  C4. For rows that are dictionaries, \<open>find_duplicates\<close> returns, in input order, exactly
  the rows at the positions \<open>j\<close> for which an earlier position \<open>i < j\<close> holds a row with
  the same set of (key, value) pairs: every occurrence after the first, never the first.
\<close>

theorem find_duplicates_later_copies:
  assumes "\<forall>r\<in>set rows. distinct (keys r)"
  shows "find_duplicates rows =
     map (nth rows) (filter (\<lambda>j. \<exists>i<j. same_items (rows ! i) (rows ! j)) [0..<length rows])"
proof -
  have "dup_loop rows [] [] = [] @ later_copies [] rows"
    using assms by (intro dup_loop_later_copies [where S = "[]"]) auto
  then show ?thesis
    using later_copies_index [of "[]" rows] by (simp add: find_duplicates_def)
qed

text \<open>
  The theorem at the rows of the specification,
  \<^verbatim>\<open>[{"id":1,"name":"A"}, {"id":1,"name":"A"}, {"id":2,"name":"B"}]\<close>: the result is the
  second row alone.
\<close>

theorem find_duplicates_later_copies_witness:
  "distinct (keys [(ascii ''id'', PyInt 1), (ascii ''name'', PyStr (ascii ''A''))]) \<and>
   distinct (keys [(ascii ''id'', PyInt 2), (ascii ''name'', PyStr (ascii ''B''))]) \<and>
   find_duplicates
     [[(ascii ''id'', PyInt 1), (ascii ''name'', PyStr (ascii ''A''))],
      [(ascii ''id'', PyInt 1), (ascii ''name'', PyStr (ascii ''A''))],
      [(ascii ''id'', PyInt 2), (ascii ''name'', PyStr (ascii ''B''))]]
   = [[(ascii ''id'', PyInt 1), (ascii ''name'', PyStr (ascii ''A''))]] \<and>
   map (nth [[(ascii ''id'', PyInt 1), (ascii ''name'', PyStr (ascii ''A''))],
             [(ascii ''id'', PyInt 1), (ascii ''name'', PyStr (ascii ''A''))],
             [(ascii ''id'', PyInt 2), (ascii ''name'', PyStr (ascii ''B''))]]) [1]
   = [[(ascii ''id'', PyInt 1), (ascii ''name'', PyStr (ascii ''A''))]]"
proof -
  define r1 where "r1 = [(ascii ''id'', PyInt 1), (ascii ''name'', PyStr (ascii ''A''))]"
  define r2 where "r2 = [(ascii ''id'', PyInt 2), (ascii ''name'', PyStr (ascii ''B''))]"
  have d: "distinct (keys r1)" "distinct (keys r2)"
    by (simp_all add: r1_def r2_def keys_def ascii_def)
  then have wf: "\<forall>r\<in>set [r1, r1, r2]. distinct (keys r)" by simp
  define P where "P j \<longleftrightarrow> (\<exists>i<j. same_items ([r1, r1, r2] ! i) ([r1, r1, r2] ! j))" for j
  have eq: "find_duplicates [r1, r1, r2] = map (nth [r1, r1, r2]) (filter P [0..<length [r1, r1, r2]])"
    unfolding P_def by (rule find_duplicates_later_copies [OF wf])
  have s11: "same_items r1 r1" and s12: "\<not> same_items r1 r2"
    by (simp_all add: r1_def r2_def same_items_def item_eq_def ascii_def)
  have upt: "[0..<length [r1, r1, r2]] = [0, 1, 2]" by (simp add: upt_rec)
  have p0: "\<not> P 0" by (simp add: P_def)
  have p1: "P 1" unfolding P_def using s11 by (intro exI [of _ 0]) simp
  have p2: "\<not> P 2"
  proof
    assume "P 2"
    then obtain i where i: "i < 2" and s: "same_items ([r1, r1, r2] ! i) ([r1, r1, r2] ! 2)"
      unfolding P_def by blast
    from i have "i = 0 \<or> i = 1" by auto
    then have "[r1, r1, r2] ! i = r1" by auto
    with s s12 show False by simp
  qed
  have "filter P [0, 1, 2] = [1]" using p0 p1 p2 by simp
  then have "find_duplicates [r1, r1, r2] = [r1]" unfolding eq upt by simp
  with d show ?thesis unfolding r1_def r2_def by simp
qed

subsection \<open>C5: missing counts\<close>

text \<open>
  C5. \<open>find_missing\<close> of no rows is the empty mapping. Otherwise its keys are the keys
  of the first row, in their order, and the value at a key is the number of rows that
  lack the key or hold a missing value at it.
\<close>

theorem find_missing_counts:
  assumes "distinct (keys r0)"
  shows "find_missing [] = [] \<and>
         find_missing (r0 # rs) =
           map (\<lambda>col. (col, int (length (filter
                  (\<lambda>r. case map_of r col of None \<Rightarrow> True | Some v \<Rightarrow> is_missing v) (r0 # rs)))))
               (keys r0)"
proof -
  have eq: "(\<lambda>r. case map_of r col of None \<Rightarrow> True | Some v \<Rightarrow> is_missing v)
          = (\<lambda>r. is_missing (dict_get r col))" for col
    by (auto simp: dict_get_def fun_eq_iff split: option.splits)
  have "find_missing (r0 # rs) = fold (count_row (keys r0)) (r0 # rs) (map (\<lambda>c. (c, 0)) (keys r0))"
    by (simp add: find_missing_def Let_def)
  also have "\<dots> = map (\<lambda>c. (c, 0 + int (length (filter (\<lambda>r. is_missing (dict_get r c)) (r0 # rs))))) (keys r0)"
    using assms by (rule fold_count_row_tabulate)
  finally show ?thesis by (simp add: eq find_missing_def)
qed

text \<open>
  The theorem at the rows of the specification,
  \<^verbatim>\<open>[{"a": None, "b": 1}, {"a": 2, "b": "NA"}]\<close>, and at a second row without the key
  \<^verbatim>\<open>b\<close>: each column counts one.
\<close>

theorem find_missing_counts_witness:
  "distinct (keys [(ascii ''a'', PyNone), (ascii ''b'', PyInt 1)]) \<and>
   find_missing [[(ascii ''a'', PyNone), (ascii ''b'', PyInt 1)],
                 [(ascii ''a'', PyInt 2), (ascii ''b'', PyStr (ascii ''NA''))]]
     = [(ascii ''a'', 1), (ascii ''b'', 1)] \<and>
   find_missing [[(ascii ''a'', PyNone), (ascii ''b'', PyInt 1)], [(ascii ''a'', PyInt 2)]]
     = [(ascii ''a'', 1), (ascii ''b'', 1)]"
proof -
  have d: "distinct (keys [(ascii ''a'', PyNone), (ascii ''b'', PyInt 1)])"
    by (simp add: keys_def ascii_def)
  have na: "is_missing (PyStr (ascii ''NA''))" by (simp add: text_eval)
  have ab: "ascii ''a'' \<noteq> ascii ''b''" by (simp add: ascii_def)
  from find_missing_counts [OF d, of "[[(ascii ''a'', PyInt 2), (ascii ''b'', PyStr (ascii ''NA''))]]"]
    find_missing_counts [OF d, of "[[(ascii ''a'', PyInt 2)]]"] d na ab
  show ?thesis by (simp add: keys_def)
qed

subsection \<open>C6: \<^verbatim>\<open>clean_distance\<close>\<close>

text \<open>
  C6, for the values that have a text form. \<open>clean_distance\<close> of a missing value is
  \<^verbatim>\<open>None\<close>. Of any other value whose text form \<open>s\<close> exists: if \<open>s\<close> has a substring
  that the pattern matches, then \<open>float\<close> reads the first such substring and
  \<open>clean_distance\<close> returns that float; if \<open>s\<close> has none, \<open>clean_distance\<close> returns
  \<^verbatim>\<open>None\<close>; one of the two is the case. Nothing is printed for any value. The values
  without a text form are the integers of more than 4300 decimal digits.
\<close>

theorem clean_distance_first_number:
  "(is_missing v \<longrightarrow> clean_distance v = (Inr None, [])) \<and>
   (\<not> is_missing v \<longrightarrow>
      (\<forall>s. str_of v = Inr s \<longrightarrow>
         (\<forall>g. leftmost_token s g \<longrightarrow>
            (\<exists>x. float_of_str g = Inr x \<and> clean_distance v = (Inr (Some x), []))) \<and>
         ((\<forall>pre t post. s = pre @ t @ post \<longrightarrow> \<not> number_token t) \<longrightarrow>
            clean_distance v = (Inr None, [])) \<and>
         ((\<exists>g. leftmost_token s g) \<or>
          (\<forall>pre t post. s = pre @ t @ post \<longrightarrow> \<not> number_token t)))) \<and>
   snd (clean_distance v) = [] \<and>
   ((\<forall>s. str_of v \<noteq> Inr s) \<longleftrightarrow> (\<exists>i. v = PyInt i \<and> 4300 < length (digits_of \<bar>i\<bar>)))"
proof -
  have miss: "clean_distance v = (Inr None, [])" if "is_missing v"
    using that by (simp add: clean_distance_def)
  have printed: "snd (clean_distance v) = []"
    by (rule clean_distance_silent)
  have found: "\<exists>x. float_of_str g = Inr x \<and> clean_distance v = (Inr (Some x), [])"
    if nm: "\<not> is_missing v" and s: "str_of v = Inr s" and g: "leftmost_token s g" for s g
  proof (cases "search_number s")
    case None
    from g obtain pre post where "s = pre @ g @ post" "number_token g"
      unfolding leftmost_token_def by blast
    with search_number_None [OF None] show ?thesis by blast
  next
    case (Some m)
    from search_number_Some [OF Some] g have gm: "g = m" by (rule leftmost_token_unique [symmetric])
    from g have "number_token g" unfolding leftmost_token_def by blast
    from float_of_number_token [OF this] obtain x where x: "float_of_str g = Inr x" by blast
    with nm s Some gm have "clean_distance v = (Inr (Some x), [])"
      by (simp add: clean_distance_def)
    with x show ?thesis by blast
  qed
  have none: "clean_distance v = (Inr None, [])"
    if nm: "\<not> is_missing v" and s: "str_of v = Inr s"
      and no: "\<forall>pre t post. s = pre @ t @ post \<longrightarrow> \<not> number_token t" for s
  proof (cases "search_number s")
    case None
    with nm s show ?thesis by (simp add: clean_distance_def)
  next
    case (Some m)
    from search_number_Some [OF Some] obtain pre post
      where "s = pre @ m @ post" "number_token m"
      unfolding leftmost_token_def by blast
    with no show ?thesis by blast
  qed
  have either: "(\<exists>g. leftmost_token s g) \<or>
      (\<forall>pre t post. s = pre @ t @ post \<longrightarrow> \<not> number_token t)" for s
  proof (cases "search_number s")
    case None
    from search_number_None [OF None] show ?thesis by blast
  next
    case (Some m)
    from search_number_Some [OF Some] show ?thesis by blast
  qed
  have form: "(\<forall>s. str_of v \<noteq> Inr s) \<longleftrightarrow> (\<exists>i. v = PyInt i \<and> 4300 < length (digits_of \<bar>i\<bar>))"
    unfolding str_of_text str_of_error by blast
  show ?thesis
  proof (intro conjI impI allI)
    show "clean_distance v = (Inr None, [])" if "is_missing v" using that by (rule miss)
    show "\<exists>x. float_of_str g = Inr x \<and> clean_distance v = (Inr (Some x), [])"
      if "\<not> is_missing v" "str_of v = Inr s" "leftmost_token s g" for s g
      using that by (rule found)
    show "clean_distance v = (Inr None, [])"
      if "\<not> is_missing v" "str_of v = Inr s"
        "\<forall>pre t post. s = pre @ t @ post \<longrightarrow> \<not> number_token t" for s
      using that by (rule none)
    show "(\<exists>g. leftmost_token s g) \<or>
      (\<forall>pre t post. s = pre @ t @ post \<longrightarrow> \<not> number_token t)" for s
      by (rule either)
    show "snd (clean_distance v) = []" by (rule printed)
    show "(\<forall>s. str_of v \<noteq> Inr s) \<longleftrightarrow> (\<exists>i. v = PyInt i \<and> 4300 < length (digits_of \<bar>i\<bar>))"
      by (rule form)
  qed
qed

text \<open>
  The theorem at the text \<^verbatim>\<open>4.32F\<close>, whose first number token is \<^verbatim>\<open>4.32\<close>: the result
  is the binary64 value of \<^verbatim>\<open>4.32\<close>.
\<close>

theorem clean_distance_first_number_witness:
  "\<not> is_missing (PyStr (ascii ''4.32F'')) \<and>
   str_of (PyStr (ascii ''4.32F'')) = Inr (ascii ''4.32F'') \<and>
   leftmost_token (ascii ''4.32F'') (ascii ''4.32'') \<and>
   float_of_str (ascii ''4.32'') = Inr (Finite (607985949695017 / 140737488355328)) \<and>
   clean_distance (PyStr (ascii ''4.32F''))
     = (Inr (Some (Finite (607985949695017 / 140737488355328))), [])"
proof -
  have m: "\<not> is_missing (PyStr (ascii ''4.32F''))" by (simp add: text_eval)
  have s: "str_of (PyStr (ascii ''4.32F'')) = Inr (ascii ''4.32F'')" by simp
  have "search_number (ascii ''4.32F'') = Some (ascii ''4.32'')"
    by (simp add: match_number_def todecimal_ascii isdecimal_def ascii_def)
  then have lm: "leftmost_token (ascii ''4.32F'') (ascii ''4.32'')"
    using search_number_Some by simp
  have f: "float_of_str (ascii ''4.32'') = Inr (Finite (607985949695017 / 140737488355328))"
    by (simp add: float_eval)
  from clean_distance_first_number [of "PyStr (ascii ''4.32F'')"] m s lm
  obtain x where "float_of_str (ascii ''4.32'') = Inr x"
    "clean_distance (PyStr (ascii ''4.32F'')) = (Inr (Some x), [])"
    by blast
  with f m s lm show ?thesis by simp
qed

text \<open>
  C6 as stated is about every value. The integer \<^verbatim>\<open>10 ** 4300\<close> is not missing and has
  4301 digits: \<^verbatim>\<open>str\<close> of it raises \<^verbatim>\<open>ValueError\<close>, which \<open>clean_distance\<close> does not
  catch, so that nothing is returned.
\<close>

theorem clean_distance_huge_int_counterexample:
  "\<not> is_missing (PyInt (10 ^ 4300)) \<and>
   clean_distance (PyInt (10 ^ 4300)) = (Inl ValueError, [])"
  by (rule conjI, rule is_missing_int, rule clean_distance_power10, simp)


end
